theory Spec2Isabelle
  imports Main "HOL-Library.Multiset"
begin

section \<open>Strings\<close>

text \<open>
  A Python \<open>str\<close> is a sequence of Unicode code points; the program counts characters
  (the context windows of 80 to 200 characters) and names the en dash U+2013 and the em
  dash U+2014 as single characters, so a string is modelled as a list of code points.
  \<open>cp\<close> is Python's \<open>ord\<close> on a character literal, \<open>ustr\<close> turns a literal into a
  string.
\<close>

type_synonym pystr = "nat list"

definition cp :: "char \<Rightarrow> nat" where
  "cp c = of_char c"

definition ustr :: "string \<Rightarrow> pystr" where
  "ustr s = map cp s"

definition en_dash :: nat where
  "en_dash = 8211"

definition em_dash :: nat where
  "em_dash = 8212"

text \<open>
  What the Python runtime takes from the Unicode character database beyond ASCII is not
  part of the program: which code points from 128 on are decimal digits (\<open>\d\<close>), which
  are alphanumeric (\<open>\w\<close>), and what \<open>str.upper\<close> makes of them. These tables are a
  parameter of the model; the ASCII range is written out.
\<close>

record unicode_db =
  uni_decimal :: "nat \<Rightarrow> bool"
  uni_alnum :: "nat \<Rightarrow> bool"
  uni_upper :: "nat \<Rightarrow> pystr"

text \<open>
  \<open>str.isspace\<close> of one character; \<open>str.strip()\<close> and the pattern \<open>\s\<close> both use it.
  The list is CPython's: the ASCII controls 9 to 13 and 28 to 31, the space, and the
  Unicode spaces and separators.
\<close>

definition is_space :: "nat \<Rightarrow> bool" where
  "is_space c \<longleftrightarrow>
     (9 \<le> c \<and> c \<le> 13) \<or> (28 \<le> c \<and> c \<le> 32) \<or> c = 133 \<or> c = 160 \<or> c = 5760 \<or>
     (8192 \<le> c \<and> c \<le> 8202) \<or> c = 8232 \<or> c = 8233 \<or> c = 8239 \<or> c = 8287 \<or> c = 12288"

definition is_digit :: "unicode_db \<Rightarrow> nat \<Rightarrow> bool" where
  "is_digit U c \<longleftrightarrow> (if c < 128 then 48 \<le> c \<and> c \<le> 57 else uni_decimal U c)"

definition is_word :: "unicode_db \<Rightarrow> nat \<Rightarrow> bool" where
  "is_word U c \<longleftrightarrow>
     (if c < 128
      then (48 \<le> c \<and> c \<le> 57) \<or> (65 \<le> c \<and> c \<le> 90) \<or> c = 95 \<or> (97 \<le> c \<and> c \<le> 122)
      else uni_alnum U c)"

definition upper :: "unicode_db \<Rightarrow> pystr \<Rightarrow> pystr" where
  "upper U s =
     concat (map (\<lambda>c. if c < 128 then [if 97 \<le> c \<and> c \<le> 122 then c - 32 else c]
                        else uni_upper U c) s)"

text \<open>
  \<open>s.strip()\<close>, \<open>s.rstrip(chars)\<close>, \<open>s.replace(old, new)\<close> for single characters, and the
  slice \<open>s[i:j]\<close> for indices that are not negative.
\<close>

definition lstrip :: "pystr \<Rightarrow> pystr" where
  "lstrip s = dropWhile is_space s"

definition rstrip :: "pystr \<Rightarrow> pystr" where
  "rstrip s = rev (dropWhile is_space (rev s))"

definition strip :: "pystr \<Rightarrow> pystr" where
  "strip s = rstrip (lstrip s)"

definition rstrip_chars :: "pystr \<Rightarrow> pystr \<Rightarrow> pystr" where
  "rstrip_chars chars s = rev (dropWhile (\<lambda>c. c \<in> set chars) (rev s))"

definition replace_char :: "nat \<Rightarrow> nat \<Rightarrow> pystr \<Rightarrow> pystr" where
  "replace_char old new s = map (\<lambda>c. if c = old then new else c) s"

definition slice :: "pystr \<Rightarrow> nat \<Rightarrow> nat \<Rightarrow> pystr" where
  "slice s i j = drop i (take j s)"

text \<open>
  \<open>str.startswith\<close>; \<open>s.split(sep)\<close> and \<open>s.split(sep, 1)\<close> for a separator of one
  character; \<open>sep.join(parts)\<close>.
\<close>

primrec startswith :: "pystr \<Rightarrow> pystr \<Rightarrow> bool" where
  "startswith s [] = True"
| "startswith s (p # ps) = (case s of [] \<Rightarrow> False | c # cs \<Rightarrow> c = p \<and> startswith cs ps)"

fun split_sep :: "nat \<Rightarrow> pystr \<Rightarrow> pystr list" where
  "split_sep sep [] = [[]]"
| "split_sep sep (c # cs) =
     (if c = sep then [] # split_sep sep cs
      else (case split_sep sep cs of
              [] \<Rightarrow> [[c]]
            | part # parts \<Rightarrow> (c # part) # parts))"

fun split_once :: "nat \<Rightarrow> pystr \<Rightarrow> pystr list" where
  "split_once sep [] = [[]]"
| "split_once sep (c # cs) =
     (if c = sep then [[], cs]
      else (case split_once sep cs of
              [] \<Rightarrow> [[c]]
            | part # parts \<Rightarrow> (c # part) # parts))"

fun join :: "pystr \<Rightarrow> pystr list \<Rightarrow> pystr" where
  "join sep [] = []"
| "join sep [p] = p"
| "join sep (p # q # ps) = p @ sep @ join sep (q # ps)"

section \<open>Regular expressions\<close>

text \<open>
  The fragment of Python's \<open>re\<close> that the program's patterns use. Quantifiers are greedy
  and only ever applied to a single character or character class; groups are numbered
  capture groups; the only assertions are \<open>^\<close> and \<open>\b\<close>. A compiled pattern carries the
  flags \<open>re.IGNORECASE\<close> and \<open>re.MULTILINE\<close>.
\<close>

datatype catom =
    Lit nat
  | Range nat nat
  | Digit
  | Space
  | Word

datatype regex =
    Str pystr
  | Cls "catom list"
  | Opt "catom list"
  | Star "catom list"
  | Plus "catom list"
  | Rep nat "catom list"
  | Cat regex regex
  | Alt regex regex
  | Grp nat regex
  | Bol
  | Wordb

record pattern =
  pat :: regex
  ignorecase :: bool
  multiline :: bool

fun seq :: "regex list \<Rightarrow> regex" where
  "seq [] = Str []"
| "seq [r] = r"
| "seq (r # rs) = Cat r (seq rs)"

fun alts :: "regex list \<Rightarrow> regex" where
  "alts [] = Str []"
| "alts [r] = r"
| "alts (r # rs) = Alt r (alts rs)"

text \<open>
  Matching under \<open>re.IGNORECASE\<close>. The engine lower-cases the text character and looks
  it up among the lower-cased pattern characters and their listed equivalents; for an
  ASCII pattern letter that accepts both cases of the letter and, besides, U+0130 and
  U+0131 for "i", U+017F for "s" and U+212A for "k". \<open>casekey\<close> maps each of these classes
  to its lower-case ASCII letter and leaves every other character alone. (The only
  non-ASCII pattern character of the program is the en dash, which has no case.)
\<close>

definition casekey :: "nat \<Rightarrow> nat" where
  "casekey c =
     (if 65 \<le> c \<and> c \<le> 90 then c + 32
      else if c = 304 \<or> c = 305 then 105
      else if c = 383 then 115
      else if c = 8490 then 107
      else c)"

definition char_eq :: "bool \<Rightarrow> nat \<Rightarrow> nat \<Rightarrow> bool" where
  "char_eq ic p c = (if ic then casekey c = casekey p else c = p)"

fun atom_match :: "unicode_db \<Rightarrow> bool \<Rightarrow> catom \<Rightarrow> nat \<Rightarrow> bool" where
  "atom_match U ic (Lit p) c = char_eq ic p c"
| "atom_match U ic (Range lo hi) c =
     (if ic then list_ex (\<lambda>p. casekey c = casekey p) [lo ..< Suc hi]
      else lo \<le> c \<and> c \<le> hi)"
| "atom_match U ic Digit c = is_digit U c"
| "atom_match U ic Space c = is_space c"
| "atom_match U ic Word c = is_word U c"

definition cls_match :: "unicode_db \<Rightarrow> bool \<Rightarrow> catom list \<Rightarrow> nat \<Rightarrow> bool" where
  "cls_match U ic atoms c = list_ex (\<lambda>a. atom_match U ic a c) atoms"

text \<open>
  The state of a match attempt: the character before the current position (for \<open>^\<close> and
  \<open>\b\<close>), the text from the current position on, the position, and the groups captured
  so far (latest first).
\<close>

record mstate =
  m_prev :: "nat option"
  m_rest :: pystr
  m_pos :: nat
  m_caps :: "(nat \<times> pystr) list"

definition advance :: "nat \<Rightarrow> mstate \<Rightarrow> mstate" where
  "advance n st =
     st\<lparr>m_prev := (if n = 0 \<or> m_rest st = [] then m_prev st
                   else Some (last (take n (m_rest st)))),
        m_rest := drop n (m_rest st),
        m_pos := m_pos st + n\<rparr>"

fun str_match :: "bool \<Rightarrow> pystr \<Rightarrow> pystr \<Rightarrow> bool" where
  "str_match ic [] cs = True"
| "str_match ic (p # ps) [] = False"
| "str_match ic (p # ps) (c # cs) = (char_eq ic p c \<and> str_match ic ps cs)"

text \<open>
  A greedy quantifier on a character class: every number of repetitions between \<open>lo\<close> and
  the length of the run (at most \<open>hi\<close> when there is a bound), the longest first, which is
  the order in which backtracking tries them.
\<close>

fun run_length :: "(nat \<Rightarrow> bool) \<Rightarrow> pystr \<Rightarrow> nat" where
  "run_length p [] = 0"
| "run_length p (c # cs) = (if p c then Suc (run_length p cs) else 0)"

definition greedy :: "(nat \<Rightarrow> bool) \<Rightarrow> nat \<Rightarrow> nat option \<Rightarrow> mstate \<Rightarrow> mstate list" where
  "greedy p lo hi st =
     (let n = run_length p (m_rest st);
          n' = (case hi of None \<Rightarrow> n | Some h \<Rightarrow> min h n)
      in map (\<lambda>k. advance k st) (rev [lo ..< Suc n']))"

definition at_boundary :: "unicode_db \<Rightarrow> mstate \<Rightarrow> bool" where
  "at_boundary U st =
     (let before = (case m_prev st of None \<Rightarrow> False | Some c \<Rightarrow> is_word U c);
          after = (case m_rest st of [] \<Rightarrow> False | c # cs \<Rightarrow> is_word U c)
      in before \<noteq> after)"

definition at_line_start :: "bool \<Rightarrow> mstate \<Rightarrow> bool" where
  "at_line_start ml st =
     (case m_prev st of None \<Rightarrow> True | Some c \<Rightarrow> ml \<and> c = 10)"

text \<open>
  All the ways to match a pattern from a state, in the order in which the backtracking
  engine finds them; the match it reports is the first.
\<close>

fun matches :: "unicode_db \<Rightarrow> bool \<Rightarrow> bool \<Rightarrow> regex \<Rightarrow> mstate \<Rightarrow> mstate list" where
  "matches U ic ml (Str s) st =
     (if str_match ic s (m_rest st) then [advance (length s) st] else [])"
| "matches U ic ml (Cls atoms) st = greedy (cls_match U ic atoms) 1 (Some 1) st"
| "matches U ic ml (Opt atoms) st = greedy (cls_match U ic atoms) 0 (Some 1) st"
| "matches U ic ml (Star atoms) st = greedy (cls_match U ic atoms) 0 None st"
| "matches U ic ml (Plus atoms) st = greedy (cls_match U ic atoms) 1 None st"
| "matches U ic ml (Rep n atoms) st = greedy (cls_match U ic atoms) n (Some n) st"
| "matches U ic ml (Cat r1 r2) st = concat (map (matches U ic ml r2) (matches U ic ml r1 st))"
| "matches U ic ml (Alt r1 r2) st = matches U ic ml r1 st @ matches U ic ml r2 st"
| "matches U ic ml (Grp n r) st =
     map (\<lambda>st'. st'\<lparr>m_caps := (n, take (m_pos st' - m_pos st) (m_rest st)) # m_caps st'\<rparr>)
       (matches U ic ml r st)"
| "matches U ic ml Bol st = (if at_line_start ml st then [st] else [])"
| "matches U ic ml Wordb st = (if at_boundary U st then [st] else [])"

text \<open>A match object: \<open>m.start()\<close>, \<open>m.end()\<close>, \<open>m.group(0)\<close> and the numbered groups.\<close>

record rmatch =
  m_start :: nat
  m_end :: nat
  m_text :: pystr
  m_groups :: "(nat \<times> pystr) list"

text \<open>
  \<open>m.group(i)\<close>. In every pattern of the program each numbered group is a mandatory part
  of the pattern, so a match always has it; the empty string stands for a group that took
  no part.
\<close>

definition group :: "rmatch \<Rightarrow> nat \<Rightarrow> pystr" where
  "group m i =
     (if i = 0 then m_text m
      else (case map_of (m_groups m) i of None \<Rightarrow> [] | Some s \<Rightarrow> s))"

definition match_here :: "unicode_db \<Rightarrow> pattern \<Rightarrow> nat option \<Rightarrow> pystr \<Rightarrow> nat \<Rightarrow> rmatch option" where
  "match_here U p prev rest pos =
     (case matches U (ignorecase p) (multiline p) (pat p)
             \<lparr>m_prev = prev, m_rest = rest, m_pos = pos, m_caps = []\<rparr> of
        [] \<Rightarrow> None
      | st # _ \<Rightarrow> Some \<lparr>m_start = pos, m_end = m_pos st,
                        m_text = take (m_pos st - pos) rest, m_groups = m_caps st\<rparr>)"

text \<open>The leftmost match at or after the current position (\<open>pattern.search\<close>).\<close>

fun scan :: "unicode_db \<Rightarrow> pattern \<Rightarrow> nat option \<Rightarrow> pystr \<Rightarrow> nat \<Rightarrow> rmatch option" where
  "scan U p prev [] pos = match_here U p prev [] pos"
| "scan U p prev (c # cs) pos =
     (case match_here U p prev (c # cs) pos of
        Some m \<Rightarrow> Some m
      | None \<Rightarrow> scan U p (Some c) cs (Suc pos))"

definition re_search :: "unicode_db \<Rightarrow> pattern \<Rightarrow> pystr \<Rightarrow> rmatch option" where
  "re_search U p text = scan U p None text 0"

text \<open>
  \<open>pattern.finditer\<close>: the non-overlapping matches from left to right. After a match the
  scan resumes at its end: \<open>skip\<close> counts the characters of the last match still to pass.
  (After an empty match the scan moves on by one character; no pattern of the program
  matches the empty string.)
\<close>

fun iter :: "unicode_db \<Rightarrow> pattern \<Rightarrow> nat \<Rightarrow> nat option \<Rightarrow> pystr \<Rightarrow> nat \<Rightarrow> rmatch list" where
  "iter U p skip prev [] pos =
     (if skip = 0
      then (case match_here U p prev [] pos of None \<Rightarrow> [] | Some m \<Rightarrow> [m])
      else [])"
| "iter U p skip prev (c # cs) pos =
     (if skip = 0
      then (case match_here U p prev (c # cs) pos of
              None \<Rightarrow> iter U p 0 (Some c) cs (Suc pos)
            | Some m \<Rightarrow> m # iter U p (m_end m - m_start m - 1) (Some c) cs (Suc pos))
      else iter U p (skip - 1) (Some c) cs (Suc pos))"

definition finditer :: "unicode_db \<Rightarrow> pattern \<Rightarrow> pystr \<Rightarrow> rmatch list" where
  "finditer U p text = iter U p 0 None text 0"

text \<open>
  \<open>pattern.sub(repl, text)\<close> for a replacement without group references: the text
  between the matches is kept, each match becomes \<open>repl\<close>.
\<close>

fun sub_from :: "pystr \<Rightarrow> pystr \<Rightarrow> nat \<Rightarrow> rmatch list \<Rightarrow> pystr" where
  "sub_from repl text i [] = drop i text"
| "sub_from repl text i (m # rest) =
     slice text i (m_start m) @ repl @ sub_from repl text (m_end m) rest"

definition re_sub :: "unicode_db \<Rightarrow> pattern \<Rightarrow> pystr \<Rightarrow> pystr \<Rightarrow> pystr" where
  "re_sub U p repl text = sub_from repl text 0 (finditer U p text)"

section \<open>The reference checker\<close>

subsection \<open>Data model\<close>

text \<open>
  The dataclasses \<open>Reference\<close> and \<open>Target\<close>. The field \<open>context\<close> of a Reference is
  \<open>context_snippet\<close> here. The fields \<open>raw_text\<close>, \<open>volume\<close> and \<open>page\<close> of a Reference are
  written \<open>Reference.raw_text\<close>, \<open>Reference.volume\<close> and \<open>Reference.page\<close> where the two
  records have to be told apart.
\<close>

record Reference =
  ref_type :: pystr
  ref_id :: pystr
  raw_text :: pystr
  volume :: pystr
  page :: int
  context_snippet :: pystr

record Target =
  target_type :: pystr
  target_id :: pystr
  raw_text :: pystr
  volume :: pystr
  page :: int

datatype error = ValueError

subsection \<open>Normalization helpers\<close>

definition WHITESPACE_RUN :: pattern where
  "WHITESPACE_RUN = \<lparr>pat = Plus [Space], ignorecase = False, multiline = False\<rparr>"

definition normalize_id :: "unicode_db \<Rightarrow> pystr \<Rightarrow> pystr" where
  "normalize_id U raw =
     (let s = strip raw;
          s = replace_char em_dash (cp CHR ''-'') (replace_char en_dash (cp CHR ''-'') s);
          s = re_sub U WHITESPACE_RUN (ustr '' '') s
      in s)"

definition normalize_section_id :: "unicode_db \<Rightarrow> pystr \<Rightarrow> pystr" where
  "normalize_section_id U raw =
     (let s = normalize_id U raw;
          s = rstrip_chars (ustr ''.'') s
      in s)"

subsection \<open>Reference patterns\<close>

text \<open>
  The compiled patterns, in the order of the source. \<open>SECTION_ID\<close> is
  \<open>S\.[\d.]+|[\d]+\.[\d.]+\<close>, \<open>LABEL_ID\<close> is \<open>[A-Z]?\.?[\d]+[\d.]*[-\<endash>]\d+\<close> (hyphen or
  en dash), \<open>APPENDIX_WORD\<close> is \<open>Appendi(?:x|ces)\<close> and \<open>AND_WORD\<close> is \<open>\s+and\s+\<close>.
\<close>

definition SECTION_ID :: regex where
  "SECTION_ID =
     Alt (Cat (Str (ustr ''S.'')) (Plus [Digit, Lit (cp CHR ''.'')]))
         (seq [Plus [Digit], Str (ustr ''.''), Plus [Digit, Lit (cp CHR ''.'')]])"

definition LABEL_ID :: regex where
  "LABEL_ID =
     seq [Opt [Range (cp CHR ''A'') (cp CHR ''Z'')], Opt [Lit (cp CHR ''.'')], Plus [Digit],
          Star [Digit, Lit (cp CHR ''.'')], Cls [Lit (cp CHR ''-''), Lit en_dash], Plus [Digit]]"

definition APPENDIX_WORD :: regex where
  "APPENDIX_WORD = Cat (Str (ustr ''Appendi'')) (Alt (Str (ustr ''x'')) (Str (ustr ''ces'')))"

definition SECTION_REF :: pattern where
  "SECTION_REF =
     \<lparr>pat = seq [Str (ustr ''Section''), Opt [Lit (cp CHR ''s'')], Plus [Space], Grp 1 SECTION_ID],
      ignorecase = True, multiline = False\<rparr>"

definition CHAPTER_REF :: pattern where
  "CHAPTER_REF =
     \<lparr>pat = seq [Str (ustr ''Chapter''), Opt [Lit (cp CHR ''s'')], Plus [Space], Grp 1 (Plus [Digit])],
      ignorecase = True, multiline = False\<rparr>"

definition TABLE_REF :: pattern where
  "TABLE_REF =
     \<lparr>pat = seq [Str (ustr ''Table''), Opt [Lit (cp CHR ''s'')], Plus [Space], Grp 1 LABEL_ID],
      ignorecase = True, multiline = False\<rparr>"

definition FIGURE_REF :: pattern where
  "FIGURE_REF =
     \<lparr>pat = seq [Str (ustr ''Figure''), Opt [Lit (cp CHR ''s'')], Plus [Space], Grp 1 LABEL_ID],
      ignorecase = True, multiline = False\<rparr>"

definition APPENDIX_REF :: pattern where
  "APPENDIX_REF =
     \<lparr>pat = seq [APPENDIX_WORD, Plus [Space], Grp 1 (Cls [Range (cp CHR ''A'') (cp CHR ''Z'')]), Wordb],
      ignorecase = True, multiline = False\<rparr>"

definition REF_PATTERNS :: "(pystr \<times> pattern \<times> nat) list" where
  "REF_PATTERNS =
     [(ustr ''section'', SECTION_REF, 1),
      (ustr ''chapter'', CHAPTER_REF, 1),
      (ustr ''table'', TABLE_REF, 1),
      (ustr ''figure'', FIGURE_REF, 1),
      (ustr ''appendix'', APPENDIX_REF, 1)]"

definition AND_WORD :: regex where
  "AND_WORD = seq [Plus [Space], Str (ustr ''and''), Plus [Space]]"

definition COMPOUND_TABLE_RE :: pattern where
  "COMPOUND_TABLE_RE =
     \<lparr>pat = seq [Str (ustr ''Table''), Opt [Lit (cp CHR ''s'')], Plus [Space],
                 Grp 1 LABEL_ID, AND_WORD, Grp 2 LABEL_ID],
      ignorecase = True, multiline = False\<rparr>"

definition COMPOUND_FIGURE_RE :: pattern where
  "COMPOUND_FIGURE_RE =
     \<lparr>pat = seq [Str (ustr ''Figure''), Opt [Lit (cp CHR ''s'')], Plus [Space],
                 Grp 1 LABEL_ID, AND_WORD, Grp 2 LABEL_ID],
      ignorecase = True, multiline = False\<rparr>"

definition COMPOUND_SECTION_RE :: pattern where
  "COMPOUND_SECTION_RE =
     \<lparr>pat = seq [Str (ustr ''Section''), Opt [Lit (cp CHR ''s'')], Plus [Space],
                 Grp 1 SECTION_ID, AND_WORD, Grp 2 SECTION_ID],
      ignorecase = True, multiline = False\<rparr>"

definition COMPOUND_APPENDIX_RE :: pattern where
  "COMPOUND_APPENDIX_RE =
     \<lparr>pat = seq [APPENDIX_WORD, Plus [Space], Grp 1 (Cls [Range (cp CHR ''A'') (cp CHR ''Z'')]),
                 AND_WORD, Grp 2 (Cls [Range (cp CHR ''A'') (cp CHR ''Z'')]), Wordb],
      ignorecase = True, multiline = False\<rparr>"

definition EXTERNAL_CONTEXT_RE :: pattern where
  "EXTERNAL_CONTEXT_RE =
     \<lparr>pat = alts
        [seq [Str (ustr ''2008''), Plus [Space], Str (ustr ''LANL''), Plus [Space], Str (ustr ''SWEIS'')],
         seq [Str (ustr ''Final''), Plus [Space], Str (ustr ''Site-Wide''), Plus [Space],
              Str (ustr ''Environmental''), Plus [Space], Str (ustr ''Impact''), Plus [Space],
              Str (ustr ''Statement''), Plus [Space], Str (ustr ''for''), Plus [Space],
              Str (ustr ''Continued'')],
         seq [Str (ustr ''CT''), Plus [Space], Str (ustr ''EIS'')],
         seq [Str (ustr ''Conveyance''), Plus [Space], Str (ustr ''and''), Plus [Space],
              Str (ustr ''Transfer'')],
         Str (ustr ''DOE/EIS-0380''),
         Str (ustr ''DOE/EIS-0293''),
         seq [Str (ustr ''DOE/EA-''), Plus [Digit]],
         seq [Str (ustr ''Chromium''), Plus [Space],
              Alt (Str (ustr ''Interim'')) (Str (ustr ''Final'')), Plus [Space],
              Str (ustr ''Remedy''), Plus [Space],
              Alt (Str (ustr ''EA'')) (Str (ustr ''Environmental''))],
         seq [Str (ustr ''previous''), Plus [Space], Str (ustr ''SWEIS'')],
         seq [Str (ustr ''prior''), Plus [Space], Str (ustr ''SWEIS'')]],
      ignorecase = True, multiline = False\<rparr>"

definition REGULATORY_RE :: pattern where
  "REGULATORY_RE =
     \<lparr>pat = alts
        [seq [Plus [Digit], Plus [Space], Str (ustr ''CFR'')],
         seq [Plus [Digit], Plus [Space], Str (ustr ''U.S.C.'')],
         seq [Plus [Digit], Plus [Space], Str (ustr ''FR''), Plus [Space], Plus [Digit]],
         seq [Str (ustr ''Executive''), Plus [Space], Str (ustr ''Order'')],
         seq [Str (ustr ''DOE''), Plus [Space], Str (ustr ''Order'')]],
      ignorecase = True, multiline = False\<rparr>"

text \<open>The patterns that \<open>is_external_reference\<close> compiles in place.\<close>

definition OF_THE_RE :: pattern where
  "OF_THE_RE =
     \<lparr>pat = seq [Str (ustr ''of''), Plus [Space], Str (ustr ''the''), Plus [Space],
                 alts [Str (ustr ''Final''), Str (ustr ''2008''), Str (ustr ''previous'')]],
      ignorecase = True, multiline = False\<rparr>"

definition SOURCE_RE :: pattern where
  "SOURCE_RE =
     \<lparr>pat = seq [Str (ustr ''Source:''), Star [Space], Plus [Word], Star [Space],
                 Str (ustr ''(''), Rep 4 [Digit]],
      ignorecase = True, multiline = False\<rparr>"

definition SOURCE_WIDE_RE :: pattern where
  "SOURCE_WIDE_RE =
     \<lparr>pat = seq [Str (ustr ''Source:''), Star [Space], Plus [Word], Star [Space],
                 Str (ustr ''(''), Rep 4 [Digit], Opt [Word], Str (ustr '')'')],
      ignorecase = True, multiline = False\<rparr>"

definition LEGAL_CODE_RE :: pattern where
  "LEGAL_CODE_RE =
     \<lparr>pat = alts
        [seq [Str (ustr ''Code''), Plus [Space], Str (ustr ''of''), Plus [Space],
              Str (ustr ''Ordinance'')],
         seq [Str (ustr ''U''), Opt [Lit (cp CHR ''.'')], Str (ustr ''S''), Opt [Lit (cp CHR ''.'')],
              Str (ustr ''C''), Opt [Lit (cp CHR ''.'')]],
         seq [Str (ustr ''United''), Plus [Space], Str (ustr ''States''), Plus [Space],
              Str (ustr ''Code'')]],
      ignorecase = True, multiline = False\<rparr>"

subsection \<open>Context classification\<close>

definition get_context :: "pystr \<Rightarrow> nat \<Rightarrow> nat \<Rightarrow> pystr" where
  "get_context text match_start match_end =
     (let window = 150;
          start = max 0 (match_start - window);
          end' = min (length text) (match_end + window);
          snippet = strip (replace_char 10 (cp CHR '' '') (slice text start end'));
          snippet = (if start > 0 then ustr ''...'' @ snippet else snippet);
          snippet = (if end' < length text then snippet @ ustr ''...'' else snippet)
      in snippet)"

definition is_external_reference :: "unicode_db \<Rightarrow> pystr \<Rightarrow> nat \<Rightarrow> nat \<Rightarrow> bool" where
  "is_external_reference U text match_start match_end =
     (let window = 200;
          start = max 0 (match_start - window);
          end' = min (length text) (match_end + window);
          context = slice text start end'
      in if re_search U EXTERNAL_CONTEXT_RE context \<noteq> None then True
         else let after = slice text match_end (min (length text) (match_end + 80))
         in if re_search U OF_THE_RE after \<noteq> None then True
         else let before = slice text (max 0 (match_start - 80)) match_start
         in if re_search U SOURCE_RE before \<noteq> None then True
         else let before_wide = slice text (max 0 (match_start - 150)) match_start
         in if re_search U SOURCE_WIDE_RE before_wide \<noteq> None then True
         else if re_search U LEGAL_CODE_RE before_wide \<noteq> None then True
         else False)"

definition is_regulatory_context :: "unicode_db \<Rightarrow> pystr \<Rightarrow> nat \<Rightarrow> nat \<Rightarrow> bool" where
  "is_regulatory_context U text match_start match_end =
     (let window = 100;
          start = max 0 (match_start - window);
          end' = min (length text) (match_end + window);
          context = slice text start end'
      in re_search U REGULATORY_RE context \<noteq> None)"

subsection \<open>Reference extraction\<close>

text \<open>
  The body of the loop over the matches of one primary pattern: \<open>None\<close> where the source
  says \<open>continue\<close>, the Reference it appends otherwise.
\<close>

definition primary_reference ::
    "unicode_db \<Rightarrow> pystr \<Rightarrow> pystr \<Rightarrow> int \<Rightarrow> pystr \<Rightarrow> nat \<Rightarrow> rmatch \<Rightarrow> Reference option" where
  "primary_reference U text vol page_num rtype group_idx m =
     (let raw = group m 0;
          ref_id_raw = group m group_idx
      in if is_regulatory_context U text (m_start m) (m_end m) then None
         else if is_external_reference U text (m_start m) (m_end m) then None
         else let norm_id = (if rtype = ustr ''section'' \<or> rtype = ustr ''chapter''
                             then normalize_section_id U ref_id_raw
                             else normalize_id U ref_id_raw);
                  context = get_context text (m_start m) (m_end m)
         in Some \<lparr>ref_type = rtype, ref_id = norm_id, Reference.raw_text = raw,
                   Reference.volume = vol, Reference.page = page_num,
                   context_snippet = context\<rparr>)"

text \<open>
  The body of a loop over the matches of a compound pattern: the Reference for the second
  identifier, unless the context is external.
\<close>

definition compound_reference ::
    "unicode_db \<Rightarrow> pystr \<Rightarrow> pystr \<Rightarrow> int \<Rightarrow> pystr \<Rightarrow> (pystr \<Rightarrow> pystr) \<Rightarrow> rmatch \<Rightarrow> Reference option" where
  "compound_reference U text vol page_num rtype norm m =
     (if \<not> is_external_reference U text (m_start m) (m_end m)
      then let norm_id = norm (group m 2)
           in Some \<lparr>ref_type = rtype, ref_id = norm_id, Reference.raw_text = group m 0,
                     Reference.volume = vol, Reference.page = page_num,
                     context_snippet = get_context text (m_start m) (m_end m)\<rparr>
      else None)"

definition page_references :: "unicode_db \<Rightarrow> pystr \<Rightarrow> int \<times> pystr \<Rightarrow> Reference list" where
  "page_references U vol pg =
     (case pg of (page_num, text) \<Rightarrow>
        concat (map (\<lambda>(rtype, pattern, group_idx).
                  List.map_filter (primary_reference U text vol page_num rtype group_idx)
                    (finditer U pattern text)) REF_PATTERNS) @
        List.map_filter
          (compound_reference U text vol page_num (ustr ''table'') (normalize_id U))
          (finditer U COMPOUND_TABLE_RE text) @
        List.map_filter
          (compound_reference U text vol page_num (ustr ''figure'') (normalize_id U))
          (finditer U COMPOUND_FIGURE_RE text) @
        List.map_filter
          (compound_reference U text vol page_num (ustr ''section'') (normalize_section_id U))
          (finditer U COMPOUND_SECTION_RE text) @
        List.map_filter
          (compound_reference U text vol page_num (ustr ''appendix'')
             (\<lambda>raw. upper U (normalize_id U raw)))
          (finditer U COMPOUND_APPENDIX_RE text))"

definition extract_references :: "unicode_db \<Rightarrow> (int \<times> pystr) list \<Rightarrow> pystr \<Rightarrow> Reference list" where
  "extract_references U pages vol = concat (map (page_references U vol) pages)"

subsection \<open>Target extraction\<close>

definition LINE_INDENT :: regex where
  "LINE_INDENT = Cat Bol (Star [Lit (cp CHR '' ''), Lit 9])"

definition SECTION_HEADING_RE :: pattern where
  "SECTION_HEADING_RE =
     \<lparr>pat = seq [LINE_INDENT, Grp 1 SECTION_ID, Plus [Space],
                 Cls [Range (cp CHR ''A'') (cp CHR ''Z'')]],
      ignorecase = False, multiline = True\<rparr>"

definition CHAPTER_HEADING_RE :: pattern where
  "CHAPTER_HEADING_RE =
     \<lparr>pat = seq [LINE_INDENT, Alt (Str (ustr ''CHAPTER'')) (Str (ustr ''Chapter'')), Plus [Space],
                 Grp 1 (Plus [Digit])],
      ignorecase = False, multiline = True\<rparr>"

text \<open>The source also compiles this pattern; \<open>extract_targets\<close> does not use it.\<close>

definition CHAPTER_NUM_HEADING_RE :: pattern where
  "CHAPTER_NUM_HEADING_RE =
     \<lparr>pat = seq [LINE_INDENT, Grp 1 (Plus [Digit]), Plus [Space],
                 Cls [Range (cp CHR ''A'') (cp CHR ''Z'')], Plus [Range (cp CHR ''A'') (cp CHR ''Z'')]],
      ignorecase = False, multiline = True\<rparr>"

definition TABLE_LABEL_RE :: pattern where
  "TABLE_LABEL_RE =
     \<lparr>pat = seq [LINE_INDENT, Str (ustr ''Table''), Plus [Space], Grp 1 LABEL_ID],
      ignorecase = True, multiline = True\<rparr>"

definition FIGURE_LABEL_RE :: pattern where
  "FIGURE_LABEL_RE =
     \<lparr>pat = seq [LINE_INDENT, Str (ustr ''Figure''), Plus [Space], Grp 1 LABEL_ID],
      ignorecase = True, multiline = True\<rparr>"

definition APPENDIX_HEADER_RE :: pattern where
  "APPENDIX_HEADER_RE =
     \<lparr>pat = seq [LINE_INDENT, Alt (Str (ustr ''APPENDIX'')) (Str (ustr ''Appendix'')), Plus [Space],
                 Grp 1 (Cls [Range (cp CHR ''A'') (cp CHR ''Z'')]), Wordb],
      ignorecase = False, multiline = True\<rparr>"

text \<open>
  The heading line kept as \<open>raw_text\<close>:
  \<open>text[m.start():min(m.end() + n, len(text))].split("\n")[0].strip()\<close>.
\<close>

definition heading_line :: "pystr \<Rightarrow> rmatch \<Rightarrow> nat \<Rightarrow> pystr" where
  "heading_line text m n =
     strip (case split_sep 10 (slice text (m_start m) (min (m_end m + n) (length text))) of
              [] \<Rightarrow> []
            | line # _ \<Rightarrow> line)"

definition make_target ::
    "pystr \<Rightarrow> pystr \<Rightarrow> int \<Rightarrow> pystr \<Rightarrow> (pystr \<Rightarrow> pystr) \<Rightarrow> nat \<Rightarrow> rmatch \<Rightarrow> Target" where
  "make_target text vol page_num ttype norm n m =
     \<lparr>target_type = ttype, target_id = norm (group m 1),
      raw_text = heading_line text m n, volume = vol, page = page_num\<rparr>"

definition page_targets :: "unicode_db \<Rightarrow> pystr \<Rightarrow> int \<times> pystr \<Rightarrow> Target list" where
  "page_targets U vol pg =
     (case pg of (page_num, text) \<Rightarrow>
        map (make_target text vol page_num (ustr ''section'') (normalize_section_id U) 80)
          (finditer U SECTION_HEADING_RE text) @
        map (make_target text vol page_num (ustr ''chapter'') strip 60)
          (finditer U CHAPTER_HEADING_RE text) @
        map (make_target text vol page_num (ustr ''table'') (normalize_id U) 80)
          (finditer U TABLE_LABEL_RE text) @
        map (make_target text vol page_num (ustr ''figure'') (normalize_id U) 80)
          (finditer U FIGURE_LABEL_RE text) @
        map (make_target text vol page_num (ustr ''appendix'') (upper U) 60)
          (finditer U APPENDIX_HEADER_RE text))"

definition extract_targets :: "unicode_db \<Rightarrow> (int \<times> pystr) list \<Rightarrow> pystr \<Rightarrow> Target list" where
  "extract_targets U pages vol = concat (map (page_targets U vol) pages)"

subsection \<open>Cross-reference matching\<close>

text \<open>
  \<open>target_sets\<close> is a \<open>defaultdict(set)\<close> from kind to the set of known identifiers;
  \<open>get_set\<close> is \<open>target_sets.get(k, set())\<close> and \<open>set_add\<close> is \<open>target_sets[k].add(v)\<close>.
\<close>

type_synonym target_index = "pystr \<rightharpoonup> pystr set"

definition get_set :: "target_index \<Rightarrow> pystr \<Rightarrow> pystr set" where
  "get_set d k = (case d k of None \<Rightarrow> {} | Some s \<Rightarrow> s)"

definition set_add :: "target_index \<Rightarrow> pystr \<Rightarrow> pystr \<Rightarrow> target_index" where
  "set_add d k v = d(k \<mapsto> insert v (get_set d k))"

text \<open>
  For a section target, the loop over \<open>range(1, len(parts))\<close> that registers
  \<open>".".join(parts[:i])\<close>.
\<close>

definition add_parents :: "target_index \<Rightarrow> pystr \<Rightarrow> target_index" where
  "add_parents d tid =
     (let parts = split_sep (cp CHR ''.'') tid
      in foldl (\<lambda>d i. set_add d (ustr ''section'') (join (ustr ''.'') (take i parts)))
           d [1 ..< length parts])"

definition add_target :: "target_index \<Rightarrow> Target \<Rightarrow> target_index" where
  "add_target d t =
     (let d1 = set_add d (target_type t) (target_id t)
      in if target_type t = ustr ''section'' then add_parents d1 (target_id t) else d1)"

definition target_sets :: "Target list \<Rightarrow> target_index" where
  "target_sets targets = foldl add_target Map.empty targets"

text \<open>
  \<open>seen_refs\<close> is a dictionary from the key \<open>f"{r.ref_type}:{r.ref_id}"\<close> to the list of
  the references with that key; it is iterated in insertion order, so it is an association
  list here.
\<close>

definition ref_key :: "Reference \<Rightarrow> pystr" where
  "ref_key r = ref_type r @ ustr '':'' @ ref_id r"

fun seen_append ::
    "(pystr \<times> Reference list) list \<Rightarrow> pystr \<Rightarrow> Reference \<Rightarrow> (pystr \<times> Reference list) list" where
  "seen_append [] key r = [(key, [r])]"
| "seen_append ((k, rs) # seen) key r =
     (if k = key then (k, rs @ [r]) # seen else (k, rs) # seen_append seen key r)"

definition seen_refs :: "Reference list \<Rightarrow> (pystr \<times> Reference list) list" where
  "seen_refs refs = foldl (\<lambda>seen r. seen_append seen (ref_key r) r) [] refs"

text \<open>
  The scan \<open>for tid in known\<close> sets \<open>is_matched\<close> when some known identifier starts with
  \<open>ref_id + "."\<close> or equals \<open>ref_id\<close>; the order in which the set is iterated does not
  change that.
\<close>

definition prefix_scan :: "pystr set \<Rightarrow> pystr \<Rightarrow> bool" where
  "prefix_scan known rid = (\<exists>tid \<in> known. startswith tid (rid @ ustr ''.'') \<or> tid = rid)"

definition group_matched :: "target_index \<Rightarrow> pystr \<Rightarrow> pystr \<Rightarrow> bool" where
  "group_matched d rtype rid =
     (let known = get_set d rtype;
          is_matched = (rid \<in> known)
      in if \<not> is_matched \<and> rtype = ustr ''section'' then prefix_scan known rid
         else is_matched)"

text \<open>
  The loop over \<open>seen_refs.items()\<close>. Unpacking \<open>key.split(":", 1)\<close> into two names raises
  \<open>ValueError\<close> unless the split has two parts.
\<close>

fun classify :: "target_index \<Rightarrow> (pystr \<times> Reference list) list \<Rightarrow>
    Reference list \<times> Reference list \<Rightarrow> error + (Reference list \<times> Reference list)" where
  "classify d [] (matched, orphaned) = Inr (matched, orphaned)"
| "classify d ((key, ref_list) # rest) (matched, orphaned) =
     (case split_once (cp CHR '':'') key of
        [rtype, rid] \<Rightarrow>
          if group_matched d rtype rid
          then classify d rest (matched @ ref_list, orphaned)
          else classify d rest (matched, orphaned @ ref_list)
      | _ \<Rightarrow> Inl ValueError)"

definition find_orphans ::
    "Reference list \<Rightarrow> Target list \<Rightarrow> error + (Reference list \<times> Reference list)" where
  "find_orphans refs targets = classify (target_sets targets) (seen_refs refs) ([], [])"

subsection \<open>The matcher without the closure loop\<close>

text \<open>
  \<open>find_orphans\<close> with the loop over \<open>range(1, len(parts))\<close> removed: the index holds the
  identifiers of the targets and nothing else. It is what claim C10 compares with.
\<close>

definition target_sets_no_closure :: "Target list \<Rightarrow> target_index" where
  "target_sets_no_closure targets =
     foldl (\<lambda>d t. set_add d (target_type t) (target_id t)) Map.empty targets"

definition find_orphans_no_closure ::
    "Reference list \<Rightarrow> Target list \<Rightarrow> error + (Reference list \<times> Reference list)" where
  "find_orphans_no_closure refs targets =
     classify (target_sets_no_closure targets) (seen_refs refs) ([], [])"

section \<open>Notions used in the proofs\<close>

text \<open>
  The example spans of the specification, and a Unicode database for the closed examples:
  one in which no code point from 128 on is a digit or alphanumeric, and \<open>str.upper\<close>
  leaves those code points alone. The examples are ASCII texts, on which every database
  gives the same result.
\<close>

definition ascii_db :: unicode_db where
  "ascii_db = \<lparr>uni_decimal = (\<lambda>c. False), uni_alnum = (\<lambda>c. False), uni_upper = (\<lambda>c. [c])\<rparr>"

definition regulatory_span :: pystr where
  "regulatory_span = ustr ''requirements under 40 CFR Part 122, Chapter 5 describes''"

definition source_after_span :: pystr where
  "source_after_span = ustr ''Table 8-14 (Source: DOE (2008b))''"

definition source_before_span :: pystr where
  "source_before_span = ustr ''Source: DOE (2008b), Table 8-14''"

text \<open>
  The verdict of \<open>find_orphans\<close> on a group, as a function of the group's key; the proper
  dot-prefixes of a section identifier; the identifiers of the targets of one kind.
\<close>

definition key_matched :: "target_index \<Rightarrow> pystr \<Rightarrow> bool" where
  "key_matched d key =
     (case split_once (cp CHR '':'') key of
        [rtype, rid] \<Rightarrow> group_matched d rtype rid
      | _ \<Rightarrow> False)"

definition parents :: "pystr \<Rightarrow> pystr set" where
  "parents tid =
     (\<lambda>i. join (ustr ''.'') (take i (split_sep (cp CHR ''.'') tid))) `
       set [1 ..< length (split_sep (cp CHR ''.'') tid)]"

definition ids_of :: "Target list \<Rightarrow> pystr \<Rightarrow> pystr set" where
  "ids_of targets ty = set (map target_id (filter (\<lambda>t. target_type t = ty) targets))"

text \<open>
  What \<open>normalize_id\<close> computes, step by step: \<open>unify_dashes\<close> is the two calls of
  \<open>str.replace\<close>, \<open>squeeze False\<close> is the substitution of a single space for every run
  of whitespace (\<open>squeeze True\<close> continues inside a run). A string is \<open>normal\<close> when it
  neither starts nor ends with whitespace, has no en or em dash, and each of its
  whitespace characters is a single space followed by no other whitespace.
\<close>

fun squeeze :: "bool \<Rightarrow> pystr \<Rightarrow> pystr" where
  "squeeze in_run [] = []"
| "squeeze in_run (c # cs) =
     (if is_space c then (if in_run then squeeze True cs else 32 # squeeze True cs)
      else c # squeeze False cs)"

definition dash :: "nat \<Rightarrow> nat" where
  "dash c = (if c = en_dash \<or> c = em_dash then cp CHR ''-'' else c)"

definition unify_dashes :: "pystr \<Rightarrow> pystr" where
  "unify_dashes s = replace_char em_dash (cp CHR ''-'') (replace_char en_dash (cp CHR ''-'') s)"

definition lead_ok :: "pystr \<Rightarrow> bool" where
  "lead_ok x \<longleftrightarrow> (case x of [] \<Rightarrow> True | c # _ \<Rightarrow> \<not> is_space c)"

definition trail_ok :: "pystr \<Rightarrow> bool" where
  "trail_ok x \<longleftrightarrow> lead_ok (rev x)"

fun collapsed :: "pystr \<Rightarrow> bool" where
  "collapsed [] = True"
| "collapsed (c # cs) = ((if is_space c then c = 32 \<and> lead_ok cs else True) \<and> collapsed cs)"

definition no_dashes :: "pystr \<Rightarrow> bool" where
  "no_dashes x \<longleftrightarrow> en_dash \<notin> set x \<and> em_dash \<notin> set x"

definition normal :: "pystr \<Rightarrow> bool" where
  "normal y \<longleftrightarrow> lead_ok y \<and> trail_ok y \<and> no_dashes y \<and> collapsed y"

section \<open>Strings and slices\<close>

lemmas str_defs = ustr_def cp_def en_dash_def em_dash_def is_space_def is_digit_def is_word_def
  upper_def lstrip_def rstrip_def strip_def rstrip_chars_def replace_char_def slice_def

lemma cp_inject: "cp a = cp b \<longleftrightarrow> a = b"
  by (simp add: cp_def)

lemma ustr_inject: "ustr a = ustr b \<longleftrightarrow> a = b"
  unfolding ustr_def by (rule inj_map_eq_map) (simp add: inj_on_def cp_inject)

lemma drop_take_split:
  assumes "i \<le> j"
  shows "drop i xs = drop i (take j xs) @ drop j xs"
proof -
  from assms have "drop j xs = drop (j - i) (drop i xs)" by simp
  moreover have "drop i (take j xs) = take (j - i) (drop i xs)" by (rule drop_take)
  ultimately show ?thesis by (simp only: append_take_drop_id)
qed

lemma slice_split:
  assumes "i \<le> j" and "j \<le> k"
  shows "slice t i k = slice t i j @ slice t j k"
proof -
  from assms(2) have "take j (take k t) = take j t" by (simp add: min_def)
  with drop_take_split [OF assms(1), of "take k t"] show ?thesis
    by (simp only: slice_def)
qed

lemma slice_contains:
  assumes "a \<le> length p" and "length p + length w \<le> b"
  shows "\<exists>A X. slice (p @ w @ q) a b = A @ w @ X"
proof -
  have "take b (p @ w @ q) = p @ w @ take (b - length p - length w) q"
    using assms(2) by simp
  then have "slice (p @ w @ q) a b = drop a (p @ w @ take (b - length p - length w) q)"
    by (simp only: slice_def)
  also have "\<dots> = drop a p @ w @ take (b - length p - length w) q"
    using assms(1) by simp
  finally show ?thesis by blast
qed

section \<open>The matcher\<close>

lemmas re_defs = casekey_def char_eq_def cls_match_def advance_def greedy_def at_boundary_def
  at_line_start_def group_def match_here_def re_search_def finditer_def re_sub_def

lemmas ev = str_defs re_defs Let_def upt_rec

lemma greedy_none:
  "run_length p (m_rest st) < lo \<Longrightarrow> greedy p lo None st = []"
  by (simp add: greedy_def)

lemma greedy_longest:
  assumes "lo \<le> run_length p (m_rest st)"
  shows "\<exists>others. greedy p lo None st = advance (run_length p (m_rest st)) st # others"
proof -
  let ?n = "run_length p (m_rest st)"
  have "[lo ..< Suc ?n] = [lo ..< ?n] @ [?n]"
    using assms by (rule upt_Suc_append)
  then have r: "rev [lo ..< Suc ?n] = ?n # rev [lo ..< ?n]"
    by (simp only: rev_append rev.simps append.simps)
  have "greedy p lo None st = map (\<lambda>k. advance k st) (rev [lo ..< Suc ?n])"
    unfolding greedy_def Let_def option.case ..
  also have "\<dots> = advance ?n st # map (\<lambda>k. advance k st) (rev [lo ..< ?n])"
    unfolding r list.map ..
  finally show ?thesis by blast
qed

lemma match_here_start: "match_here U p prev rest pos = Some m \<Longrightarrow> m_start m = pos"
  by (auto simp: match_here_def split: list.splits)

lemma iter_starts:
  "m \<in> set (iter U p k prev s pos) \<Longrightarrow> pos + k \<le> m_start m"
proof (induction s arbitrary: k prev pos)
  case Nil
  then show ?case
    by (cases "k = 0"; cases "match_here U p prev [] pos") (auto dest: match_here_start)
next
  case (Cons c cs)
  show ?case
  proof (cases "k = 0")
    case True
    show ?thesis
    proof (cases "match_here U p prev (c # cs) pos")
      case None
      with Cons.prems True have "m \<in> set (iter U p 0 (Some c) cs (Suc pos))" by simp
      from Cons.IH [OF this] True show ?thesis by simp
    next
      case (Some m')
      then have st: "m_start m' = pos" by (rule match_here_start)
      from Cons.prems True Some have
        "m = m' \<or> m \<in> set (iter U p (m_end m' - m_start m' - 1) (Some c) cs (Suc pos))" by simp
      then show ?thesis
      proof
        assume "m = m'" with st True show ?thesis by simp
      next
        assume "m \<in> set (iter U p (m_end m' - m_start m' - 1) (Some c) cs (Suc pos))"
        from Cons.IH [OF this] True show ?thesis by simp
      qed
    qed
  next
    case False
    with Cons.prems have "m \<in> set (iter U p (k - 1) (Some c) cs (Suc pos))" by simp
    from Cons.IH [OF this] False show ?thesis by simp
  qed
qed

lemma sub_from_shift:
  "i \<le> j \<Longrightarrow> \<forall>m \<in> set found. j \<le> m_start m \<Longrightarrow>
   sub_from repl t i found = slice t i j @ sub_from repl t j found"
proof (cases found)
  case Nil
  assume "i \<le> j"
  with Nil show ?thesis by (simp add: slice_def drop_take_split [of i j t])
next
  case (Cons m rest)
  assume a: "i \<le> j" "\<forall>m \<in> set found. j \<le> m_start m"
  with Cons have "j \<le> m_start m" by simp
  from slice_split [OF a(1) this, of t] Cons show ?thesis by simp
qed

lemma scan_finds:
  assumes "\<And>prev pos. match_here U p prev (w @ X) pos \<noteq> None"
  shows "scan U p prev (A @ w @ X) pos \<noteq> None"
proof (induction A arbitrary: prev pos)
  case Nil
  show ?case
  proof (cases "w @ X")
    case Nil
    with assms [of prev pos] show ?thesis by simp
  next
    case (Cons c cs)
    with assms [of prev pos] show ?thesis by (auto split: option.splits)
  qed
next
  case (Cons a A)
  show ?case using Cons.IH by (auto split: option.splits)
qed

lemma re_search_finds:
  assumes "\<And>prev pos. match_here U p prev (w @ X) pos \<noteq> None"
  shows "re_search U p (A @ w @ X) \<noteq> None"
  unfolding re_search_def by (rule scan_finds) (rule assms)

section \<open>Normalization\<close>

subsection \<open>Substituting a space for every run of whitespace\<close>

lemma ws_match_here:
  "match_here U WHITESPACE_RUN prev rest pos =
     (if run_length is_space rest = 0 then None
      else Some \<lparr>m_start = pos, m_end = pos + run_length is_space rest,
                  m_text = take (run_length is_space rest) rest, m_groups = []\<rparr>)"
proof -
  let ?st = "\<lparr>m_prev = prev, m_rest = rest, m_pos = pos, m_caps = []\<rparr>"
  have cls: "cls_match U False [Space] = is_space"
    by (rule ext) (simp add: cls_match_def)
  have m: "matches U False False (Plus [Space]) ?st = greedy is_space 1 None ?st"
    by (simp only: matches.simps cls)
  have mh: "match_here U WHITESPACE_RUN prev rest pos =
      (case greedy is_space 1 None ?st of
         [] \<Rightarrow> None
       | st # _ \<Rightarrow> Some \<lparr>m_start = pos, m_end = m_pos st,
                         m_text = take (m_pos st - pos) rest, m_groups = m_caps st\<rparr>)"
    unfolding match_here_def WHITESPACE_RUN_def pattern.select_convs m ..
  show ?thesis
  proof (cases "run_length is_space rest = 0")
    case True
    then have "greedy is_space 1 None ?st = []"
      by (intro greedy_none) simp
    with True show ?thesis
      unfolding mh by simp
  next
    case False
    then have "1 \<le> run_length is_space (m_rest ?st)" by simp
    from greedy_longest [OF this] obtain others where
      g: "greedy is_space 1 None ?st = advance (run_length is_space rest) ?st # others"
      by auto
    show ?thesis
      unfolding mh g using False by (simp add: advance_def)
  qed
qed

lemma ws_iter:
  "sub_from (ustr '' '') (pre @ s) (length pre) (iter U WHITESPACE_RUN 0 prev s (length pre)) =
     squeeze False s \<and>
   sub_from (ustr '' '') (pre @ s) (length pre + run_length is_space s)
     (iter U WHITESPACE_RUN (run_length is_space s) prev s (length pre)) = squeeze True s"
proof (induction s arbitrary: pre prev)
  case Nil
  show ?case by (simp add: ws_match_here)
next
  case (Cons c cs)
  have sp: "ustr '' '' = [32]" by (simp add: ustr_def cp_def)
  have len: "Suc (length pre) = length (pre @ [c])" by simp
  have tx: "pre @ c # cs = (pre @ [c]) @ cs" by simp
  note IH = Cons.IH [of "pre @ [c]" "Some c"]
  show ?case
  proof (cases "is_space c")
    case True
    have first: "sub_from (ustr '' '') (pre @ c # cs) (length pre)
        (iter U WHITESPACE_RUN 0 prev (c # cs) (length pre)) = squeeze False (c # cs)"
    proof -
      have "iter U WHITESPACE_RUN 0 prev (c # cs) (length pre) =
          \<lparr>m_start = length pre, m_end = length pre + Suc (run_length is_space cs),
            m_text = take (Suc (run_length is_space cs)) (c # cs), m_groups = []\<rparr> #
          iter U WHITESPACE_RUN (run_length is_space cs) (Some c) cs (Suc (length pre))"
        using True by (simp add: ws_match_here)
      then have "sub_from (ustr '' '') (pre @ c # cs) (length pre)
          (iter U WHITESPACE_RUN 0 prev (c # cs) (length pre)) =
          ustr '' '' @ sub_from (ustr '' '') ((pre @ [c]) @ cs)
            (length (pre @ [c]) + run_length is_space cs)
            (iter U WHITESPACE_RUN (run_length is_space cs) (Some c) cs (length (pre @ [c])))"
        by (simp add: slice_def)
      also have "\<dots> = ustr '' '' @ squeeze True cs"
        using IH by (simp only:)
      finally show ?thesis using True by (simp add: sp)
    qed
    have second: "sub_from (ustr '' '') (pre @ c # cs) (length pre + run_length is_space (c # cs))
        (iter U WHITESPACE_RUN (run_length is_space (c # cs)) prev (c # cs) (length pre)) =
        squeeze True (c # cs)"
    proof -
      have "sub_from (ustr '' '') (pre @ c # cs) (length pre + run_length is_space (c # cs))
          (iter U WHITESPACE_RUN (run_length is_space (c # cs)) prev (c # cs) (length pre)) =
        sub_from (ustr '' '') ((pre @ [c]) @ cs) (length (pre @ [c]) + run_length is_space cs)
          (iter U WHITESPACE_RUN (run_length is_space cs) (Some c) cs (length (pre @ [c])))"
        using True by simp
      also have "\<dots> = squeeze True cs" using IH by (simp only:)
      finally show ?thesis using True by simp
    qed
    from first second show ?thesis by blast
  next
    case False
    have first: "sub_from (ustr '' '') (pre @ c # cs) (length pre)
        (iter U WHITESPACE_RUN 0 prev (c # cs) (length pre)) = squeeze False (c # cs)"
    proof -
      let ?found = "iter U WHITESPACE_RUN 0 (Some c) cs (Suc (length pre))"
      have it: "iter U WHITESPACE_RUN 0 prev (c # cs) (length pre) = ?found"
        using False by (simp add: ws_match_here)
      have starts: "\<forall>m \<in> set ?found. Suc (length pre) \<le> m_start m"
        using iter_starts [of _ U WHITESPACE_RUN 0 "Some c" cs "Suc (length pre)"] by auto
      have "sub_from (ustr '' '') (pre @ c # cs) (length pre) ?found =
          slice (pre @ c # cs) (length pre) (Suc (length pre)) @
          sub_from (ustr '' '') (pre @ c # cs) (Suc (length pre)) ?found"
        by (rule sub_from_shift [OF _ starts]) simp
      also have "slice (pre @ c # cs) (length pre) (Suc (length pre)) = [c]"
        by (simp add: slice_def)
      also have "sub_from (ustr '' '') (pre @ c # cs) (Suc (length pre)) ?found =
          sub_from (ustr '' '') ((pre @ [c]) @ cs) (length (pre @ [c]))
            (iter U WHITESPACE_RUN 0 (Some c) cs (length (pre @ [c])))"
        by simp
      also have "\<dots> = squeeze False cs" using IH by (simp only:)
      finally show ?thesis using False it by simp
    qed
    moreover have "run_length is_space (c # cs) = 0" "squeeze True (c # cs) = squeeze False (c # cs)"
      using False by simp_all
    ultimately show ?thesis by simp
  qed
qed

lemma re_sub_whitespace: "re_sub U WHITESPACE_RUN (ustr '' '') s = squeeze False s"
  using ws_iter [of "[]" s U None] by (simp add: re_sub_def finditer_def)

lemma normalize_id_eq: "normalize_id U raw = squeeze False (unify_dashes (strip raw))"
  by (simp add: normalize_id_def Let_def re_sub_whitespace unify_dashes_def)

lemmas squeeze_eval = str_defs unify_dashes_def

subsection \<open>Leading and trailing whitespace\<close>

lemma lead_ok_simps [simp]: "lead_ok []" "lead_ok (c # cs) = (\<not> is_space c)"
  by (simp_all add: lead_ok_def)

lemma dropWhile_self: "dropWhile is_space x = x \<longleftrightarrow> lead_ok x"
proof (cases x)
  case Nil
  then show ?thesis by simp
next
  case (Cons c cs)
  have "length (dropWhile is_space cs) \<le> length cs" by (rule length_dropWhile_le)
  then have "dropWhile is_space cs \<noteq> c # cs" by auto
  with Cons show ?thesis by simp
qed

lemma lstrip_id: "lstrip x = x \<longleftrightarrow> lead_ok x"
  by (simp add: lstrip_def dropWhile_self)

lemma rstrip_id: "rstrip x = x \<longleftrightarrow> trail_ok x"
proof -
  have "rstrip x = x \<longleftrightarrow> dropWhile is_space (rev x) = rev x"
    unfolding rstrip_def by (metis rev_rev_ident)
  then show ?thesis by (simp add: dropWhile_self trail_ok_def)
qed

lemma lead_ok_dropWhile: "lead_ok (dropWhile is_space x)"
  by (induction x) auto

lemma lead_ok_lstrip: "lead_ok (lstrip x)"
  by (simp add: lstrip_def lead_ok_dropWhile)

lemma trail_ok_rstrip: "trail_ok (rstrip x)"
  by (simp add: rstrip_def trail_ok_def lead_ok_dropWhile)

lemma lead_ok_prefix: "lead_ok (a @ b) \<Longrightarrow> lead_ok a"
  by (cases a) auto

lemma rev_dropWhile_prefix: "\<exists>t. x = rev (dropWhile P (rev x)) @ t"
proof -
  have "rev x = takeWhile P (rev x) @ dropWhile P (rev x)" by simp
  then have "rev (rev x) = rev (takeWhile P (rev x) @ dropWhile P (rev x))" by (rule arg_cong)
  then have "x = rev (dropWhile P (rev x)) @ rev (takeWhile P (rev x))" by (simp only: rev_rev_ident rev_append)
  then show ?thesis ..
qed

lemma rstrip_prefix: "\<exists>t. x = rstrip x @ t"
  unfolding rstrip_def by (rule rev_dropWhile_prefix)

lemma rstrip_chars_prefix: "\<exists>t. x = rstrip_chars chars x @ t"
  unfolding rstrip_chars_def by (rule rev_dropWhile_prefix)

lemma lead_ok_rstrip: "lead_ok x \<Longrightarrow> lead_ok (rstrip x)"
  using rstrip_prefix [of x] lead_ok_prefix by metis

lemma strip_ok: "lead_ok (strip x)" "trail_ok (strip x)"
  by (simp_all add: strip_def lead_ok_rstrip lead_ok_lstrip trail_ok_rstrip)

lemma strip_id: "lead_ok x \<Longrightarrow> trail_ok x \<Longrightarrow> strip x = x"
proof -
  assume "lead_ok x" "trail_ok x"
  then have "lstrip x = x" "rstrip x = x" by (simp_all add: lstrip_id rstrip_id)
  then show ?thesis by (simp add: strip_def)
qed

lemma trail_ok_Cons: "trail_ok (c # cs) = (if cs = [] then \<not> is_space c else trail_ok cs)"
  by (cases cs rule: rev_cases) (simp_all add: trail_ok_def)

lemma rstrip_shorter: "\<not> trail_ok x \<Longrightarrow> length (rstrip x) < length x"
proof -
  assume "\<not> trail_ok x"
  then have ne: "rstrip x \<noteq> x" by (simp add: rstrip_id)
  from rstrip_prefix [of x] obtain t where t: "x = rstrip x @ t" ..
  with ne have "t \<noteq> []" by auto
  then have "length (rstrip x) < length (rstrip x @ t)" by simp
  with t show ?thesis by simp
qed

subsection \<open>Dashes\<close>

lemma dash_facts: "\<not> is_space en_dash" "\<not> is_space em_dash" "\<not> is_space (cp CHR ''-'')"
  "cp CHR ''-'' \<noteq> en_dash" "cp CHR ''-'' \<noteq> em_dash" "en_dash \<noteq> em_dash"
  by (simp_all add: is_space_def en_dash_def em_dash_def cp_def)

lemma unify_dashes_map: "unify_dashes x = map dash x"
  using dash_facts by (auto simp: unify_dashes_def replace_char_def dash_def)

lemma is_space_dash: "is_space (dash c) = is_space c"
  using dash_facts by (auto simp: dash_def)

lemma lead_ok_unify: "lead_ok (unify_dashes x) = lead_ok x"
  by (cases x) (simp_all add: unify_dashes_map is_space_dash)

lemma trail_ok_unify: "trail_ok (unify_dashes x) = trail_ok x"
  using lead_ok_unify [of "rev x"] by (simp add: trail_ok_def unify_dashes_map rev_map)

lemma no_dashes_unify: "no_dashes (unify_dashes x)"
  using dash_facts by (auto simp: no_dashes_def unify_dashes_map dash_def)

lemma unify_id: "no_dashes x \<Longrightarrow> unify_dashes x = x"
  unfolding unify_dashes_map no_dashes_def
  by (induction x) (auto simp: dash_def)

lemma no_dashes_prefix: "no_dashes (a @ b) \<Longrightarrow> no_dashes a"
  by (simp add: no_dashes_def)

subsection \<open>Squeezing\<close>

lemma squeeze_collapsed:
  "collapsed (squeeze False x) \<and> collapsed (squeeze True x) \<and> lead_ok (squeeze True x)"
  by (induction x) (auto simp: is_space_def)

lemma squeeze_lead_ok: "lead_ok x \<Longrightarrow> lead_ok (squeeze b x)"
  by (cases x) auto

lemma squeeze_nonempty: "trail_ok x \<Longrightarrow> x \<noteq> [] \<Longrightarrow> squeeze b x \<noteq> []"
proof (induction x arbitrary: b)
  case Nil
  then show ?case by simp
next
  case (Cons c cs)
  show ?case
  proof (cases "is_space c")
    case True
    with Cons.prems have "cs \<noteq> []" "trail_ok cs" by (auto simp: trail_ok_Cons split: if_splits)
    with Cons.IH [of True] True show ?thesis by simp
  next
    case False
    then show ?thesis by simp
  qed
qed

lemma squeeze_trail_ok: "trail_ok x \<Longrightarrow> trail_ok (squeeze b x)"
proof (induction x arbitrary: b)
  case Nil
  then show ?case by simp
next
  case (Cons c cs)
  show ?case
  proof (cases "cs = []")
    case True
    with Cons.prems show ?thesis by (simp add: trail_ok_Cons)
  next
    case False
    with Cons.prems have t: "trail_ok cs" by (simp add: trail_ok_Cons)
    from squeeze_nonempty [OF t False] have ne: "squeeze True cs \<noteq> []" "squeeze False cs \<noteq> []"
      by simp_all
    from Cons.IH [OF t] ne show ?thesis
      by (simp add: trail_ok_Cons)
  qed
qed

lemma squeeze_id:
  "collapsed y \<Longrightarrow> squeeze False y = y \<and> (lead_ok y \<longrightarrow> squeeze True y = y)"
  by (induction y) (auto split: if_splits)

lemma squeeze_set: "set (squeeze b x) \<subseteq> insert 32 (set x)"
  by (induction x arbitrary: b) auto

lemma squeeze_no_dashes: "no_dashes x \<Longrightarrow> no_dashes (squeeze b x)"
  using squeeze_set [of b x] by (auto simp: no_dashes_def en_dash_def em_dash_def)

lemma squeeze_length: "length (squeeze b x) \<le> length x"
  by (induction x arbitrary: b) (auto intro: le_SucI)

lemma collapsed_prefix: "collapsed (a @ b) \<Longrightarrow> collapsed a"
  by (induction a) (auto dest: lead_ok_prefix split: if_splits)

subsection \<open>Idempotence\<close>

lemma normalize_id_normal: "normal (normalize_id U s)"
  unfolding normal_def normalize_id_eq
  by (simp add: squeeze_lead_ok squeeze_trail_ok squeeze_no_dashes squeeze_collapsed
      lead_ok_unify trail_ok_unify no_dashes_unify strip_ok)

lemma normalize_id_fixed: "normal y \<Longrightarrow> normalize_id U y = y"
  unfolding normal_def normalize_id_eq
  by (simp add: strip_id unify_id squeeze_id)

lemma normalize_id_idem: "normalize_id U (normalize_id U s) = normalize_id U s"
  by (rule normalize_id_fixed) (rule normalize_id_normal)

lemma rstrip_chars_idem: "rstrip_chars chars (rstrip_chars chars x) = rstrip_chars chars x"
  by (simp add: rstrip_chars_def)

lemma rstrip_chars_length: "length (rstrip_chars chars x) \<le> length x"
  by (simp add: rstrip_chars_def length_dropWhile_le [of _ "rev x", simplified])

lemma normalize_id_length: "length (normalize_id U x) \<le> length (strip x)"
  unfolding normalize_id_eq
  using squeeze_length [of False "unify_dashes (strip x)"] by (simp add: unify_dashes_map)

lemma section_id_prefix_normal:
  "lead_ok (normalize_section_id U s) \<and> no_dashes (normalize_section_id U s) \<and>
   collapsed (normalize_section_id U s)"
proof -
  let ?n = "normalize_id U s"
  have r: "normalize_section_id U s = rstrip_chars (ustr ''.'') ?n"
    by (simp add: normalize_section_id_def)
  from rstrip_chars_prefix [of ?n "ustr ''.''"] obtain t where
    t: "?n = rstrip_chars (ustr ''.'') ?n @ t" ..
  from normalize_id_normal [of U s] have "lead_ok ?n" "no_dashes ?n" "collapsed ?n"
    by (simp_all add: normal_def)
  with t show ?thesis
    unfolding r by (metis lead_ok_prefix no_dashes_prefix collapsed_prefix)
qed

lemma section_id_idem_iff:
  "normalize_section_id U (normalize_section_id U s) = normalize_section_id U s \<longleftrightarrow>
   rstrip (normalize_section_id U s) = normalize_section_id U s"
proof (cases "trail_ok (normalize_section_id U s)")
  case True
  with section_id_prefix_normal [of U s] have "normal (normalize_section_id U s)"
    by (simp add: normal_def)
  then have "normalize_id U (normalize_section_id U s) = normalize_section_id U s"
    by (rule normalize_id_fixed)
  then have "normalize_section_id U (normalize_section_id U s) =
      rstrip_chars (ustr ''.'') (normalize_section_id U s)"
    by (simp add: normalize_section_id_def [of U "normalize_section_id U s"])
  also have "\<dots> = normalize_section_id U s"
    by (simp add: normalize_section_id_def [of U s] rstrip_chars_idem)
  finally show ?thesis using True by (simp add: rstrip_id)
next
  case False
  let ?r = "normalize_section_id U s"
  have "length (normalize_section_id U ?r) \<le> length (normalize_id U ?r)"
    by (simp add: normalize_section_id_def [of U ?r] rstrip_chars_length)
  also have "\<dots> \<le> length (strip ?r)" by (rule normalize_id_length)
  also have "\<dots> \<le> length (rstrip ?r)"
    unfolding strip_def using section_id_prefix_normal [of U s] by (simp add: lstrip_id [THEN iffD2])
  also have "\<dots> < length ?r" using False by (rule rstrip_shorter)
  finally have "normalize_section_id U ?r \<noteq> ?r" by auto
  with False show ?thesis by (simp add: rstrip_id)
qed

lemma no_space_normal:
  assumes "\<forall>c \<in> set s. \<not> is_space c"
  shows "trail_ok (normalize_section_id U s)"
proof -
  have st: "strip s = s"
  proof -
    from assms have "lead_ok s" by (cases s) auto
    moreover from assms have "trail_ok s" unfolding trail_ok_def by (cases "rev s") (auto dest: arg_cong [where f = set])
    ultimately show ?thesis by (rule strip_id)
  qed
  have "set (normalize_id U s) \<subseteq> insert 32 (dash ` set s)"
    unfolding normalize_id_eq st using squeeze_set [of False "unify_dashes s"]
    by (simp add: unify_dashes_map)
  moreover have sq: "\<And>x b. \<forall>c \<in> set x. \<not> is_space c \<Longrightarrow> squeeze b x = x"
  proof -
    fix x b show "\<forall>c \<in> set x. \<not> is_space c \<Longrightarrow> squeeze b x = x"
      by (induction x arbitrary: b) auto
  qed
  have nsp: "\<forall>c \<in> set (unify_dashes s). \<not> is_space c"
    using assms by (simp add: unify_dashes_map is_space_dash)
  have "normalize_id U s = unify_dashes s"
    unfolding normalize_id_eq st by (rule sq) (rule nsp)
  with nsp have n: "\<forall>c \<in> set (normalize_id U s). \<not> is_space c" by simp
  from rstrip_chars_prefix [of "normalize_id U s" "ustr ''.''"] obtain t where
    "normalize_id U s = normalize_section_id U s @ t"
    by (auto simp: normalize_section_id_def)
  then have "set (normalize_section_id U s) \<subseteq> set (normalize_id U s)"
    by (metis set_append Un_upper1)
  with n have all: "\<forall>c \<in> set (normalize_section_id U s). \<not> is_space c" by blast
  show ?thesis
    unfolding trail_ok_def
    using all by (cases "rev (normalize_section_id U s)") (auto dest: arg_cong [where f = set])
qed

text \<open>
  Claim C8, as amended. \<open>normalize_id\<close> is idempotent on every string.
  \<open>normalize_section_id\<close> is idempotent on a string exactly when its output does not end
  in whitespace (stripping the trailing periods can uncover a space, which the second
  application strips); in particular it is idempotent on every string without whitespace,
  as the identifiers captured by the section and chapter patterns are.
\<close>

theorem normalization_idempotence:
  "normalize_id U (normalize_id U s) = normalize_id U s \<and>
   (normalize_section_id U (normalize_section_id U s) = normalize_section_id U s \<longleftrightarrow>
      rstrip (normalize_section_id U s) = normalize_section_id U s) \<and>
   ((\<forall>c \<in> set s. \<not> is_space c) \<longrightarrow>
      normalize_section_id U (normalize_section_id U s) = normalize_section_id U s)"
proof (intro conjI impI)
  show "normalize_id U (normalize_id U s) = normalize_id U s" by (rule normalize_id_idem)
  show "normalize_section_id U (normalize_section_id U s) = normalize_section_id U s \<longleftrightarrow>
      rstrip (normalize_section_id U s) = normalize_section_id U s"
    by (rule section_id_idem_iff)
  assume "\<forall>c \<in> set s. \<not> is_space c"
  then have "trail_ok (normalize_section_id U s)" by (rule no_space_normal)
  then show "normalize_section_id U (normalize_section_id U s) = normalize_section_id U s"
    by (simp add: section_id_idem_iff rstrip_id)
qed

text \<open>
  C8 at the heading identifier "S.1.3.", which has no whitespace: the trailing period is
  stripped and the result is a fixed point.
\<close>

theorem normalization_idempotence_witness:
  "list_all (\<lambda>c. \<not> is_space c) (ustr ''S.1.3.'') \<and>
   normalize_section_id ascii_db (ustr ''S.1.3.'') = ustr ''S.1.3'' \<and>
   normalize_section_id ascii_db (normalize_section_id ascii_db (ustr ''S.1.3.'')) =
     normalize_section_id ascii_db (ustr ''S.1.3.'')"
proof -
  have h: "\<forall>c \<in> set (ustr ''S.1.3.''). \<not> is_space c"
    by (simp add: ustr_def cp_def is_space_def)
  have v: "normalize_section_id ascii_db (ustr ''S.1.3.'') = ustr ''S.1.3''"
    by (simp add: normalize_section_id_def normalize_id_eq squeeze_eval)
  show ?thesis
    using h v normalization_idempotence [of ascii_db "ustr ''S.1.3.''"]
    by (simp add: list_all_iff)
qed

text \<open>
  The claim as stated fails for \<open>normalize_section_id\<close>: "a ." is normalized to "a " (with
  a trailing space), and "a " is normalized to "a".
\<close>

theorem section_id_not_idempotent:
  "normalize_section_id ascii_db (normalize_section_id ascii_db (ustr ''a .'')) \<noteq>
   normalize_section_id ascii_db (ustr ''a .'')"
proof -
  have a: "normalize_section_id ascii_db (ustr ''a .'') = ustr ''a ''"
    by (simp add: normalize_section_id_def normalize_id_eq squeeze_eval)
  have b: "normalize_section_id ascii_db (ustr ''a '') = ustr ''a''"
    by (simp add: normalize_section_id_def normalize_id_eq squeeze_eval)
  show ?thesis
    unfolding a b by (simp add: ustr_inject)
qed

section \<open>Context classification\<close>

text \<open>
  A citation that stands in the text is found in every window that covers it: the patterns
  below match where the citation starts, whatever precedes and follows it.
\<close>

lemma cfr_matches: "match_here U REGULATORY_RE prev (ustr ''40 CFR'' @ X) pos \<noteq> None"
  by (simp add: REGULATORY_RE_def ev)

lemma source_matches:
  "match_here U SOURCE_RE prev (ustr ''Source: DOE (2008b)'' @ X) pos \<noteq> None"
  by (simp add: SOURCE_RE_def ev)

lemma regulatory_in_span:
  assumes "length pre \<le> s" and "s \<le> e" and "e \<le> length pre + length regulatory_span"
  shows "is_regulatory_context U (pre @ regulatory_span @ post) s e"
proof -
  let ?p = "pre @ ustr ''requirements under ''"
  let ?w = "ustr ''40 CFR''"
  let ?q = "ustr '' Part 122, Chapter 5 describes'' @ post"
  have sp: "regulatory_span =
      ustr ''requirements under '' @ ustr ''40 CFR'' @ ustr '' Part 122, Chapter 5 describes''"
    by (simp add: regulatory_span_def ustr_def)
  have tx: "pre @ regulatory_span @ post = ?p @ ?w @ ?q" by (simp add: sp)
  have len: "length regulatory_span = 55" by (simp add: regulatory_span_def ustr_def)
  have a: "s - 100 \<le> length ?p" using assms len by (simp add: ustr_def)
  have b: "length ?p + length ?w \<le> min (length (pre @ regulatory_span @ post)) (e + 100)"
    using assms len by (simp add: ustr_def)
  from slice_contains [OF a b, of ?q] obtain A X where
    "slice (?p @ ?w @ ?q) (s - 100) (min (length (pre @ regulatory_span @ post)) (e + 100)) =
       A @ ?w @ X"
    by blast
  then have sl: "slice (pre @ regulatory_span @ post) (s - 100)
      (min (length (pre @ regulatory_span @ post)) (e + 100)) = A @ ?w @ X"
    by (simp only: tx)
  have "re_search U REGULATORY_RE (A @ ?w @ X) \<noteq> None"
    by (rule re_search_finds) (rule cfr_matches)
  then show ?thesis
    unfolding is_regulatory_context_def Let_def max_0L sl .
qed

lemma external_after_source:
  assumes "length pre + 19 \<le> s" and "s \<le> length pre + length source_before_span"
  shows "is_external_reference U (pre @ source_before_span @ post) s e"
proof -
  let ?w = "ustr ''Source: DOE (2008b)''"
  let ?q = "ustr '', Table 8-14'' @ post"
  have sp: "source_before_span = ?w @ ustr '', Table 8-14''"
    by (simp add: source_before_span_def ustr_def)
  have tx: "pre @ source_before_span @ post = pre @ ?w @ ?q" by (simp add: sp)
  have len: "length source_before_span = 31" by (simp add: source_before_span_def ustr_def)
  have a: "s - 80 \<le> length pre" using assms len by simp
  have b: "length pre + length ?w \<le> s" using assms by (simp add: ustr_def)
  from slice_contains [OF a b, of ?q] obtain A X where
    "slice (pre @ ?w @ ?q) (s - 80) s = A @ ?w @ X"
    by blast
  then have sl: "slice (pre @ source_before_span @ post) (s - 80) s = A @ ?w @ X"
    by (simp only: tx)
  have "re_search U SOURCE_RE (A @ ?w @ X) \<noteq> None"
    by (rule re_search_finds) (rule source_matches)
  then have found: "re_search U SOURCE_RE (slice (pre @ source_before_span @ post) (s - 80) s) \<noteq> None"
    unfolding sl .
  show ?thesis
    unfolding is_external_reference_def Let_def max_0L
    using found by simp
qed

section \<open>The extraction on the example texts\<close>

lemma appx_SECTION_REF:
  "finditer U SECTION_REF (ustr ''Appendices a and b'') =
     []"
  by (simp add: SECTION_REF_def SECTION_ID_def ev)

lemma appx_CHAPTER_REF:
  "finditer U CHAPTER_REF (ustr ''Appendices a and b'') =
     []"
  by (simp add: CHAPTER_REF_def ev)

lemma appx_TABLE_REF:
  "finditer U TABLE_REF (ustr ''Appendices a and b'') =
     []"
  by (simp add: TABLE_REF_def LABEL_ID_def ev)

lemma appx_FIGURE_REF:
  "finditer U FIGURE_REF (ustr ''Appendices a and b'') =
     []"
  by (simp add: FIGURE_REF_def LABEL_ID_def ev)

lemma appx_APPENDIX_REF:
  "finditer U APPENDIX_REF (ustr ''Appendices a and b'') =
     [\<lparr>m_start = 0, m_end = 12, m_text = ustr ''Appendices a'', m_groups = [(1, ustr ''a'')]\<rparr>]"
  by (simp add: APPENDIX_REF_def APPENDIX_WORD_def ev)

lemma appx_COMPOUND_TABLE_RE:
  "finditer U COMPOUND_TABLE_RE (ustr ''Appendices a and b'') =
     []"
  by (simp add: COMPOUND_TABLE_RE_def LABEL_ID_def AND_WORD_def ev)

lemma appx_COMPOUND_FIGURE_RE:
  "finditer U COMPOUND_FIGURE_RE (ustr ''Appendices a and b'') =
     []"
  by (simp add: COMPOUND_FIGURE_RE_def LABEL_ID_def AND_WORD_def ev)

lemma appx_COMPOUND_SECTION_RE:
  "finditer U COMPOUND_SECTION_RE (ustr ''Appendices a and b'') =
     []"
  by (simp add: COMPOUND_SECTION_RE_def SECTION_ID_def AND_WORD_def ev)

lemma appx_COMPOUND_APPENDIX_RE:
  "finditer U COMPOUND_APPENDIX_RE (ustr ''Appendices a and b'') =
     [\<lparr>m_start = 0, m_end = 18, m_text = ustr ''Appendices a and b'', m_groups = [(2, ustr ''b''), (1, ustr ''a'')]\<rparr>]"
  by (simp add: COMPOUND_APPENDIX_RE_def APPENDIX_WORD_def AND_WORD_def ev)

lemma appx_reg_0:
  "\<not> is_regulatory_context U (ustr ''Appendices a and b'') 0 12"
  by (simp add: is_regulatory_context_def REGULATORY_RE_def ev)

lemma appx_ext_0_12:
  "\<not> is_external_reference U (ustr ''Appendices a and b'') 0 12"
  by (simp add: is_external_reference_def EXTERNAL_CONTEXT_RE_def OF_THE_RE_def
      SOURCE_RE_def SOURCE_WIDE_RE_def LEGAL_CODE_RE_def ev)

lemma appx_ext_0_18:
  "\<not> is_external_reference U (ustr ''Appendices a and b'') 0 18"
  by (simp add: is_external_reference_def EXTERNAL_CONTEXT_RE_def OF_THE_RE_def
      SOURCE_RE_def SOURCE_WIDE_RE_def LEGAL_CODE_RE_def ev)

lemma appx_normalize_id_0: "normalize_id U (ustr ''a'') = ustr ''a''"
  by (simp add: normalize_id_eq squeeze_eval)

lemma appx_normalize_id_1: "normalize_id U (ustr ''b'') = ustr ''b''"
  by (simp add: normalize_id_eq squeeze_eval)

lemma appx_upper_2: "upper U (ustr ''b'') = ustr ''B''"
  by (simp add: upper_def ustr_def cp_def)

lemma appx_ctx_0_12: "get_context (ustr ''Appendices a and b'') 0 12 = ustr ''Appendices a and b''"
  by (simp add: get_context_def ev)

lemma appx_ctx_0_18: "get_context (ustr ''Appendices a and b'') 0 18 = ustr ''Appendices a and b''"
  by (simp add: get_context_def ev)

lemma appx_references:
  "extract_references U [(page_num, ustr ''Appendices a and b'')] vol =
     [\<lparr>ref_type = ustr ''appendix'', ref_id = ustr ''a'', raw_text = ustr ''Appendices a'',
        volume = vol, page = page_num, context_snippet = ustr ''Appendices a and b''\<rparr>,
      \<lparr>ref_type = ustr ''appendix'', ref_id = ustr ''B'', raw_text = ustr ''Appendices a and b'',
        volume = vol, page = page_num, context_snippet = ustr ''Appendices a and b''\<rparr>]"
  by (simp add: extract_references_def page_references_def REF_PATTERNS_def
      List.map_filter_def primary_reference_def compound_reference_def group_def
      ustr_inject
      appx_SECTION_REF appx_CHAPTER_REF appx_TABLE_REF appx_FIGURE_REF
      appx_APPENDIX_REF appx_COMPOUND_TABLE_RE appx_COMPOUND_FIGURE_RE appx_COMPOUND_SECTION_RE
      appx_COMPOUND_APPENDIX_RE appx_reg_0 appx_ext_0_12 appx_ext_0_18
      appx_normalize_id_0 appx_normalize_id_1 appx_upper_2 appx_ctx_0_12
      appx_ctx_0_18)

lemma cfr_SECTION_REF:
  "finditer U SECTION_REF (ustr ''40 CFR Tables 1-1 and 1-2'') =
     []"
  by (simp add: SECTION_REF_def SECTION_ID_def ev)

lemma cfr_CHAPTER_REF:
  "finditer U CHAPTER_REF (ustr ''40 CFR Tables 1-1 and 1-2'') =
     []"
  by (simp add: CHAPTER_REF_def ev)

lemma cfr_TABLE_REF:
  "finditer U TABLE_REF (ustr ''40 CFR Tables 1-1 and 1-2'') =
     [\<lparr>m_start = 7, m_end = 17, m_text = ustr ''Tables 1-1'', m_groups = [(1, ustr ''1-1'')]\<rparr>]"
  by (simp add: TABLE_REF_def LABEL_ID_def ev)

lemma cfr_FIGURE_REF:
  "finditer U FIGURE_REF (ustr ''40 CFR Tables 1-1 and 1-2'') =
     []"
  by (simp add: FIGURE_REF_def LABEL_ID_def ev)

lemma cfr_APPENDIX_REF:
  "finditer U APPENDIX_REF (ustr ''40 CFR Tables 1-1 and 1-2'') =
     []"
  by (simp add: APPENDIX_REF_def APPENDIX_WORD_def ev)

lemma cfr_COMPOUND_TABLE_RE:
  "finditer U COMPOUND_TABLE_RE (ustr ''40 CFR Tables 1-1 and 1-2'') =
     [\<lparr>m_start = 7, m_end = 25, m_text = ustr ''Tables 1-1 and 1-2'', m_groups = [(2, ustr ''1-2''), (1, ustr ''1-1'')]\<rparr>]"
  by (simp add: COMPOUND_TABLE_RE_def LABEL_ID_def AND_WORD_def ev)

lemma cfr_COMPOUND_FIGURE_RE:
  "finditer U COMPOUND_FIGURE_RE (ustr ''40 CFR Tables 1-1 and 1-2'') =
     []"
  by (simp add: COMPOUND_FIGURE_RE_def LABEL_ID_def AND_WORD_def ev)

lemma cfr_COMPOUND_SECTION_RE:
  "finditer U COMPOUND_SECTION_RE (ustr ''40 CFR Tables 1-1 and 1-2'') =
     []"
  by (simp add: COMPOUND_SECTION_RE_def SECTION_ID_def AND_WORD_def ev)

lemma cfr_COMPOUND_APPENDIX_RE:
  "finditer U COMPOUND_APPENDIX_RE (ustr ''40 CFR Tables 1-1 and 1-2'') =
     []"
  by (simp add: COMPOUND_APPENDIX_RE_def APPENDIX_WORD_def AND_WORD_def ev)

lemma cfr_reg_7:
  "is_regulatory_context U (ustr ''40 CFR Tables 1-1 and 1-2'') 7 17"
  by (simp add: is_regulatory_context_def REGULATORY_RE_def ev)

lemma cfr_ext_7_25:
  "\<not> is_external_reference U (ustr ''40 CFR Tables 1-1 and 1-2'') 7 25"
  by (simp add: is_external_reference_def EXTERNAL_CONTEXT_RE_def OF_THE_RE_def
      SOURCE_RE_def SOURCE_WIDE_RE_def LEGAL_CODE_RE_def ev)

lemma cfr_normalize_id_0: "normalize_id U (ustr ''1-2'') = ustr ''1-2''"
  by (simp add: normalize_id_eq squeeze_eval)

lemma cfr_ctx_7_25: "get_context (ustr ''40 CFR Tables 1-1 and 1-2'') 7 25 = ustr ''40 CFR Tables 1-1 and 1-2''"
  by (simp add: get_context_def ev)

lemma cfr_references:
  "extract_references U [(page_num, ustr ''40 CFR Tables 1-1 and 1-2'')] vol =
     [\<lparr>ref_type = ustr ''table'', ref_id = ustr ''1-2'', raw_text = ustr ''Tables 1-1 and 1-2'',
        volume = vol, page = page_num, context_snippet = ustr ''40 CFR Tables 1-1 and 1-2''\<rparr>]"
  by (simp add: extract_references_def page_references_def REF_PATTERNS_def
      List.map_filter_def primary_reference_def compound_reference_def group_def
      ustr_inject
      cfr_SECTION_REF cfr_CHAPTER_REF cfr_TABLE_REF cfr_FIGURE_REF
      cfr_APPENDIX_REF cfr_COMPOUND_TABLE_RE cfr_COMPOUND_FIGURE_RE cfr_COMPOUND_SECTION_RE
      cfr_COMPOUND_APPENDIX_RE cfr_reg_7 cfr_ext_7_25 cfr_normalize_id_0
      cfr_ctx_7_25)

lemma src_after_SECTION_REF:
  "finditer U SECTION_REF (ustr ''Table 8-14 (Source: DOE (2008b))'') =
     []"
  by (simp add: SECTION_REF_def SECTION_ID_def ev)

lemma src_after_CHAPTER_REF:
  "finditer U CHAPTER_REF (ustr ''Table 8-14 (Source: DOE (2008b))'') =
     []"
  by (simp add: CHAPTER_REF_def ev)

lemma src_after_TABLE_REF:
  "finditer U TABLE_REF (ustr ''Table 8-14 (Source: DOE (2008b))'') =
     [\<lparr>m_start = 0, m_end = 10, m_text = ustr ''Table 8-14'', m_groups = [(1, ustr ''8-14'')]\<rparr>]"
  by (simp add: TABLE_REF_def LABEL_ID_def ev)

lemma src_after_FIGURE_REF:
  "finditer U FIGURE_REF (ustr ''Table 8-14 (Source: DOE (2008b))'') =
     []"
  by (simp add: FIGURE_REF_def LABEL_ID_def ev)

lemma src_after_APPENDIX_REF:
  "finditer U APPENDIX_REF (ustr ''Table 8-14 (Source: DOE (2008b))'') =
     []"
  by (simp add: APPENDIX_REF_def APPENDIX_WORD_def ev)

lemma src_after_COMPOUND_TABLE_RE:
  "finditer U COMPOUND_TABLE_RE (ustr ''Table 8-14 (Source: DOE (2008b))'') =
     []"
  by (simp add: COMPOUND_TABLE_RE_def LABEL_ID_def AND_WORD_def ev)

lemma src_after_COMPOUND_FIGURE_RE:
  "finditer U COMPOUND_FIGURE_RE (ustr ''Table 8-14 (Source: DOE (2008b))'') =
     []"
  by (simp add: COMPOUND_FIGURE_RE_def LABEL_ID_def AND_WORD_def ev)

lemma src_after_COMPOUND_SECTION_RE:
  "finditer U COMPOUND_SECTION_RE (ustr ''Table 8-14 (Source: DOE (2008b))'') =
     []"
  by (simp add: COMPOUND_SECTION_RE_def SECTION_ID_def AND_WORD_def ev)

lemma src_after_COMPOUND_APPENDIX_RE:
  "finditer U COMPOUND_APPENDIX_RE (ustr ''Table 8-14 (Source: DOE (2008b))'') =
     []"
  by (simp add: COMPOUND_APPENDIX_RE_def APPENDIX_WORD_def AND_WORD_def ev)

lemma src_after_reg_0:
  "\<not> is_regulatory_context U (ustr ''Table 8-14 (Source: DOE (2008b))'') 0 10"
  by (simp add: is_regulatory_context_def REGULATORY_RE_def ev)

lemma src_after_ext_0_10:
  "\<not> is_external_reference U (ustr ''Table 8-14 (Source: DOE (2008b))'') 0 10"
  by (simp add: is_external_reference_def EXTERNAL_CONTEXT_RE_def OF_THE_RE_def
      SOURCE_RE_def SOURCE_WIDE_RE_def LEGAL_CODE_RE_def ev)

lemma src_after_normalize_id_0: "normalize_id U (ustr ''8-14'') = ustr ''8-14''"
  by (simp add: normalize_id_eq squeeze_eval)

lemma src_after_ctx_0_10: "get_context (ustr ''Table 8-14 (Source: DOE (2008b))'') 0 10 = ustr ''Table 8-14 (Source: DOE (2008b))''"
  by (simp add: get_context_def ev)

lemma src_after_references:
  "extract_references U [(page_num, ustr ''Table 8-14 (Source: DOE (2008b))'')] vol =
     [\<lparr>ref_type = ustr ''table'', ref_id = ustr ''8-14'', raw_text = ustr ''Table 8-14'',
        volume = vol, page = page_num, context_snippet = ustr ''Table 8-14 (Source: DOE (2008b))''\<rparr>]"
  by (simp add: extract_references_def page_references_def REF_PATTERNS_def
      List.map_filter_def primary_reference_def compound_reference_def group_def
      ustr_inject
      src_after_SECTION_REF src_after_CHAPTER_REF src_after_TABLE_REF src_after_FIGURE_REF
      src_after_APPENDIX_REF src_after_COMPOUND_TABLE_RE src_after_COMPOUND_FIGURE_RE src_after_COMPOUND_SECTION_RE
      src_after_COMPOUND_APPENDIX_RE src_after_reg_0 src_after_ext_0_10 src_after_normalize_id_0
      src_after_ctx_0_10)

lemma src_before_SECTION_REF:
  "finditer U SECTION_REF (ustr ''Source: DOE (2008b), Table 8-14'') =
     []"
  by (simp add: SECTION_REF_def SECTION_ID_def ev)

lemma src_before_CHAPTER_REF:
  "finditer U CHAPTER_REF (ustr ''Source: DOE (2008b), Table 8-14'') =
     []"
  by (simp add: CHAPTER_REF_def ev)

lemma src_before_TABLE_REF:
  "finditer U TABLE_REF (ustr ''Source: DOE (2008b), Table 8-14'') =
     [\<lparr>m_start = 21, m_end = 31, m_text = ustr ''Table 8-14'', m_groups = [(1, ustr ''8-14'')]\<rparr>]"
  by (simp add: TABLE_REF_def LABEL_ID_def ev)

lemma src_before_FIGURE_REF:
  "finditer U FIGURE_REF (ustr ''Source: DOE (2008b), Table 8-14'') =
     []"
  by (simp add: FIGURE_REF_def LABEL_ID_def ev)

lemma src_before_APPENDIX_REF:
  "finditer U APPENDIX_REF (ustr ''Source: DOE (2008b), Table 8-14'') =
     []"
  by (simp add: APPENDIX_REF_def APPENDIX_WORD_def ev)

lemma src_before_COMPOUND_TABLE_RE:
  "finditer U COMPOUND_TABLE_RE (ustr ''Source: DOE (2008b), Table 8-14'') =
     []"
  by (simp add: COMPOUND_TABLE_RE_def LABEL_ID_def AND_WORD_def ev)

lemma src_before_COMPOUND_FIGURE_RE:
  "finditer U COMPOUND_FIGURE_RE (ustr ''Source: DOE (2008b), Table 8-14'') =
     []"
  by (simp add: COMPOUND_FIGURE_RE_def LABEL_ID_def AND_WORD_def ev)

lemma src_before_COMPOUND_SECTION_RE:
  "finditer U COMPOUND_SECTION_RE (ustr ''Source: DOE (2008b), Table 8-14'') =
     []"
  by (simp add: COMPOUND_SECTION_RE_def SECTION_ID_def AND_WORD_def ev)

lemma src_before_COMPOUND_APPENDIX_RE:
  "finditer U COMPOUND_APPENDIX_RE (ustr ''Source: DOE (2008b), Table 8-14'') =
     []"
  by (simp add: COMPOUND_APPENDIX_RE_def APPENDIX_WORD_def AND_WORD_def ev)

lemma src_before_reg_21:
  "\<not> is_regulatory_context U (ustr ''Source: DOE (2008b), Table 8-14'') 21 31"
  by (simp add: is_regulatory_context_def REGULATORY_RE_def ev)

lemma src_before_ext_21_31:
  "is_external_reference U (ustr ''Source: DOE (2008b), Table 8-14'') 21 31"
  by (simp add: is_external_reference_def EXTERNAL_CONTEXT_RE_def OF_THE_RE_def
      SOURCE_RE_def SOURCE_WIDE_RE_def LEGAL_CODE_RE_def ev)

lemma src_before_references:
  "extract_references U [(page_num, ustr ''Source: DOE (2008b), Table 8-14'')] vol =
     []"
  by (simp add: extract_references_def page_references_def REF_PATTERNS_def
      List.map_filter_def primary_reference_def compound_reference_def group_def
      ustr_inject
      src_before_SECTION_REF src_before_CHAPTER_REF src_before_TABLE_REF src_before_FIGURE_REF
      src_before_APPENDIX_REF src_before_COMPOUND_TABLE_RE src_before_COMPOUND_FIGURE_RE src_before_COMPOUND_SECTION_RE
      src_before_COMPOUND_APPENDIX_RE src_before_reg_21 src_before_ext_21_31)

lemma reg_SECTION_REF:
  "finditer U SECTION_REF (ustr ''requirements under 40 CFR Part 122, Chapter 5 describes'') =
     []"
  by (simp add: SECTION_REF_def SECTION_ID_def ev)

lemma reg_CHAPTER_REF:
  "finditer U CHAPTER_REF (ustr ''requirements under 40 CFR Part 122, Chapter 5 describes'') =
     [\<lparr>m_start = 36, m_end = 45, m_text = ustr ''Chapter 5'', m_groups = [(1, ustr ''5'')]\<rparr>]"
  by (simp add: CHAPTER_REF_def ev)

lemma reg_TABLE_REF:
  "finditer U TABLE_REF (ustr ''requirements under 40 CFR Part 122, Chapter 5 describes'') =
     []"
  by (simp add: TABLE_REF_def LABEL_ID_def ev)

lemma reg_FIGURE_REF:
  "finditer U FIGURE_REF (ustr ''requirements under 40 CFR Part 122, Chapter 5 describes'') =
     []"
  by (simp add: FIGURE_REF_def LABEL_ID_def ev)

lemma reg_APPENDIX_REF:
  "finditer U APPENDIX_REF (ustr ''requirements under 40 CFR Part 122, Chapter 5 describes'') =
     []"
  by (simp add: APPENDIX_REF_def APPENDIX_WORD_def ev)

lemma reg_COMPOUND_TABLE_RE:
  "finditer U COMPOUND_TABLE_RE (ustr ''requirements under 40 CFR Part 122, Chapter 5 describes'') =
     []"
  by (simp add: COMPOUND_TABLE_RE_def LABEL_ID_def AND_WORD_def ev)

lemma reg_COMPOUND_FIGURE_RE:
  "finditer U COMPOUND_FIGURE_RE (ustr ''requirements under 40 CFR Part 122, Chapter 5 describes'') =
     []"
  by (simp add: COMPOUND_FIGURE_RE_def LABEL_ID_def AND_WORD_def ev)

lemma reg_COMPOUND_SECTION_RE:
  "finditer U COMPOUND_SECTION_RE (ustr ''requirements under 40 CFR Part 122, Chapter 5 describes'') =
     []"
  by (simp add: COMPOUND_SECTION_RE_def SECTION_ID_def AND_WORD_def ev)

lemma reg_COMPOUND_APPENDIX_RE:
  "finditer U COMPOUND_APPENDIX_RE (ustr ''requirements under 40 CFR Part 122, Chapter 5 describes'') =
     []"
  by (simp add: COMPOUND_APPENDIX_RE_def APPENDIX_WORD_def AND_WORD_def ev)

lemma reg_reg_36:
  "is_regulatory_context U (ustr ''requirements under 40 CFR Part 122, Chapter 5 describes'') 36 45"
  by (simp add: is_regulatory_context_def REGULATORY_RE_def ev)

lemma reg_references:
  "extract_references U [(page_num, ustr ''requirements under 40 CFR Part 122, Chapter 5 describes'')] vol =
     []"
  by (simp add: extract_references_def page_references_def REF_PATTERNS_def
      List.map_filter_def primary_reference_def compound_reference_def group_def
      ustr_inject
      reg_SECTION_REF reg_CHAPTER_REF reg_TABLE_REF reg_FIGURE_REF
      reg_APPENDIX_REF reg_COMPOUND_TABLE_RE reg_COMPOUND_FIGURE_RE reg_COMPOUND_SECTION_RE
      reg_COMPOUND_APPENDIX_RE reg_reg_36)

lemma cfr_reg_compound:
  "is_regulatory_context U (ustr ''40 CFR Tables 1-1 and 1-2'') 7 25"
  by (simp add: is_regulatory_context_def REGULATORY_RE_def ev)

section \<open>Claims about the extraction\<close>

text \<open>
  Claim C7. In a page text that contains the span "requirements under 40 CFR Part 122,
  Chapter 5 describes", every candidate match of a primary pattern that lies within the
  span has "40 CFR" in its regulatory-citation window, so the loop skips it and appends no
  Reference for it; and on the span itself \<open>extract_references\<close> returns no Reference at
  all, so no chapter Reference "5".
\<close>

theorem regulatory_exclusion:
  "(\<forall>m. length pre \<le> m_start m \<and> m_start m \<le> m_end m \<and>
        m_end m \<le> length pre + length regulatory_span \<longrightarrow>
        is_regulatory_context U (pre @ regulatory_span @ post) (m_start m) (m_end m) \<and>
        primary_reference U (pre @ regulatory_span @ post) vol page_num rtype group_idx m = None) \<and>
   extract_references U [(page_num, regulatory_span)] vol = []"
proof (intro conjI allI impI)
  fix m :: rmatch
  assume "length pre \<le> m_start m \<and> m_start m \<le> m_end m \<and>
    m_end m \<le> length pre + length regulatory_span"
  then show r: "is_regulatory_context U (pre @ regulatory_span @ post) (m_start m) (m_end m)"
    by (simp add: regulatory_in_span)
  then show "primary_reference U (pre @ regulatory_span @ post) vol page_num rtype group_idx m = None"
    by (simp add: primary_reference_def Let_def)
next
  show "extract_references U [(page_num, regulatory_span)] vol = []"
    unfolding regulatory_span_def by (rule reg_references)
qed

text \<open>
  C7 on the span alone: the chapter pattern finds "Chapter 5" at characters 36 to 45, the
  match lies within the span, and it is dropped.
\<close>

theorem regulatory_exclusion_witness:
  "finditer ascii_db CHAPTER_REF regulatory_span =
     [\<lparr>m_start = 36, m_end = 45, m_text = ustr ''Chapter 5'', m_groups = [(1, ustr ''5'')]\<rparr>] \<and>
   primary_reference ascii_db regulatory_span (ustr ''v1.pdf'') 1 (ustr ''chapter'') 1
     \<lparr>m_start = 36, m_end = 45, m_text = ustr ''Chapter 5'', m_groups = [(1, ustr ''5'')]\<rparr> = None \<and>
   extract_references ascii_db [(1, regulatory_span)] (ustr ''v1.pdf'') = []"
proof -
  have f: "finditer ascii_db CHAPTER_REF regulatory_span =
     [\<lparr>m_start = 36, m_end = 45, m_text = ustr ''Chapter 5'', m_groups = [(1, ustr ''5'')]\<rparr>]"
    unfolding regulatory_span_def by (rule reg_CHAPTER_REF)
  have len: "length regulatory_span = 55" by (simp add: regulatory_span_def ustr_def)
  show ?thesis
    using f len regulatory_exclusion [of "[]" ascii_db "[]" "ustr ''v1.pdf''" 1 "ustr ''chapter''" 1]
    by simp
qed

text \<open>
  Claim C2, as amended. The Source heuristic looks at the text before a match. In a page
  text that contains the span "Source: DOE (2008b), Table 8-14", every candidate match
  that starts in the span after the attribution "Source: DOE (2008b)" is classified as
  external, so the loop appends no Reference for it; on the span itself
  \<open>extract_references\<close> returns no Reference. (An attribution that follows the table
  label does not exclude the label: see the counterexample.)
\<close>

theorem external_source_exclusion:
  "(\<forall>m. length pre + 19 \<le> m_start m \<and> m_start m \<le> length pre + length source_before_span \<longrightarrow>
        is_external_reference U (pre @ source_before_span @ post) (m_start m) (m_end m) \<and>
        primary_reference U (pre @ source_before_span @ post) vol page_num rtype group_idx m = None) \<and>
   extract_references U [(page_num, source_before_span)] vol = []"
proof (intro conjI allI impI)
  fix m :: rmatch
  assume "length pre + 19 \<le> m_start m \<and> m_start m \<le> length pre + length source_before_span"
  then show "is_external_reference U (pre @ source_before_span @ post) (m_start m) (m_end m)"
    by (simp add: external_after_source)
  then show "primary_reference U (pre @ source_before_span @ post) vol page_num rtype group_idx m = None"
    by (simp add: primary_reference_def Let_def)
next
  show "extract_references U [(page_num, source_before_span)] vol = []"
    unfolding source_before_span_def by (rule src_before_references)
qed

text \<open>
  The amended C2 on the span alone: the table pattern finds "Table 8-14" at characters 21
  to 31, after the attribution, and the match is dropped.
\<close>

theorem external_source_exclusion_witness:
  "finditer ascii_db TABLE_REF source_before_span =
     [\<lparr>m_start = 21, m_end = 31, m_text = ustr ''Table 8-14'', m_groups = [(1, ustr ''8-14'')]\<rparr>] \<and>
   primary_reference ascii_db source_before_span (ustr ''v1.pdf'') 1 (ustr ''table'') 1
     \<lparr>m_start = 21, m_end = 31, m_text = ustr ''Table 8-14'', m_groups = [(1, ustr ''8-14'')]\<rparr> = None \<and>
   extract_references ascii_db [(1, source_before_span)] (ustr ''v1.pdf'') = []"
proof -
  have f: "finditer ascii_db TABLE_REF source_before_span =
     [\<lparr>m_start = 21, m_end = 31, m_text = ustr ''Table 8-14'', m_groups = [(1, ustr ''8-14'')]\<rparr>]"
    unfolding source_before_span_def by (rule src_before_TABLE_REF)
  have len: "length source_before_span = 31" by (simp add: source_before_span_def ustr_def)
  show ?thesis
    using f len
      external_source_exclusion [of "[]" ascii_db "[]" "ustr ''v1.pdf''" 1 "ustr ''table''" 1]
    by simp
qed

text \<open>
  The claim as stated fails: on a page whose text is the span "Table 8-14 (Source: DOE
  (2008b))" \<open>extract_references\<close> returns the table Reference "8-14". Nothing precedes the
  match, and none of the other heuristics fires.
\<close>

theorem source_after_table_is_extracted:
  "extract_references ascii_db [(1, source_after_span)] (ustr ''v1.pdf'') =
     [\<lparr>ref_type = ustr ''table'', ref_id = ustr ''8-14'', raw_text = ustr ''Table 8-14'',
        volume = ustr ''v1.pdf'', page = 1,
        context_snippet = ustr ''Table 8-14 (Source: DOE (2008b))''\<rparr>]"
  unfolding source_after_span_def by (rule src_after_references)

text \<open>
  Claim C3 (the code diverges). On the page text "40 CFR Tables 1-1 and 1-2" the primary
  match "Tables 1-1" is skipped, being in a regulatory-citation window, but the loop over
  the compound matches asks \<open>is_external_reference\<close> only and appends the Reference for
  the second identifier "1-2".
\<close>

theorem compound_ignores_regulatory:
  "is_regulatory_context U (ustr ''40 CFR Tables 1-1 and 1-2'') 7 25 \<and>
   extract_references U [(page_num, ustr ''40 CFR Tables 1-1 and 1-2'')] vol =
     [\<lparr>ref_type = ustr ''table'', ref_id = ustr ''1-2'', raw_text = ustr ''Tables 1-1 and 1-2'',
        volume = vol, page = page_num,
        context_snippet = ustr ''40 CFR Tables 1-1 and 1-2''\<rparr>]"
  by (simp add: cfr_references cfr_reg_compound)

theorem compound_ignores_regulatory_witness:
  "is_regulatory_context ascii_db (ustr ''40 CFR Tables 1-1 and 1-2'') 7 25 \<and>
   extract_references ascii_db [(1, ustr ''40 CFR Tables 1-1 and 1-2'')] (ustr ''v1.pdf'') =
     [\<lparr>ref_type = ustr ''table'', ref_id = ustr ''1-2'', raw_text = ustr ''Tables 1-1 and 1-2'',
        volume = ustr ''v1.pdf'', page = 1,
        context_snippet = ustr ''40 CFR Tables 1-1 and 1-2''\<rparr>]"
  by (rule compound_ignores_regulatory)

text \<open>
  Claim C4 (the code diverges). On the page text "Appendices a and b" the primary loop
  keeps the appendix letter as written, "a", while the compound loop upper-cases the second
  letter to "B".
\<close>

theorem primary_appendix_not_upper_cased:
  "extract_references U [(page_num, ustr ''Appendices a and b'')] vol =
     [\<lparr>ref_type = ustr ''appendix'', ref_id = ustr ''a'', raw_text = ustr ''Appendices a'',
        volume = vol, page = page_num, context_snippet = ustr ''Appendices a and b''\<rparr>,
      \<lparr>ref_type = ustr ''appendix'', ref_id = ustr ''B'', raw_text = ustr ''Appendices a and b'',
        volume = vol, page = page_num, context_snippet = ustr ''Appendices a and b''\<rparr>]"
  by (rule appx_references)

theorem primary_appendix_not_upper_cased_witness:
  "extract_references ascii_db [(1, ustr ''Appendices a and b'')] (ustr ''v1.pdf'') =
     [\<lparr>ref_type = ustr ''appendix'', ref_id = ustr ''a'', raw_text = ustr ''Appendices a'',
        volume = ustr ''v1.pdf'', page = 1, context_snippet = ustr ''Appendices a and b''\<rparr>,
      \<lparr>ref_type = ustr ''appendix'', ref_id = ustr ''B'', raw_text = ustr ''Appendices a and b'',
        volume = ustr ''v1.pdf'', page = 1, context_snippet = ustr ''Appendices a and b''\<rparr>]"
  by (rule primary_appendix_not_upper_cased)

text \<open>
  Claim C9. For a volume with no pages \<open>extract_references\<close> and \<open>extract_targets\<close>
  return the empty list, and \<open>find_orphans\<close> on no references and no targets returns two
  empty lists; none of them raises.
\<close>

theorem empty_input:
  "extract_references U [] vol = [] \<and>
   extract_targets U [] vol = [] \<and>
   find_orphans [] [] = Inr ([], [])"
  by (simp add: extract_references_def extract_targets_def find_orphans_def seen_refs_def)

theorem empty_input_witness:
  "extract_references ascii_db [] (ustr ''v1.pdf'') = [] \<and>
   extract_targets ascii_db [] (ustr ''v1.pdf'') = [] \<and>
   find_orphans [] [] = Inr ([], [])"
  by (rule empty_input)

section \<open>Claims about the matcher\<close>

subsection \<open>Splitting and joining\<close>

lemma split_sep_nonempty: "split_sep c s \<noteq> []"
  by (induction s) (auto split: list.splits)

lemma join_Cons: "ps \<noteq> [] \<Longrightarrow> join sep (p # ps) = p @ sep @ join sep ps"
  by (cases ps) auto

lemma join_split_sep: "join [c] (split_sep c s) = s"
proof (induction s)
  case Nil
  show ?case by simp
next
  case (Cons x xs)
  show ?case
  proof (cases "x = c")
    case True
    with Cons show ?thesis by (simp add: join_Cons split_sep_nonempty)
  next
    case False
    obtain p ps where sp: "split_sep c xs = p # ps"
      using split_sep_nonempty [of c xs] by (cases "split_sep c xs") auto
    with Cons False show ?thesis by (cases ps) auto
  qed
qed

lemma join_take_drop:
  "0 < i \<Longrightarrow> i < length ps \<Longrightarrow> join sep ps = join sep (take i ps) @ sep @ join sep (drop i ps)"
proof (induction ps arbitrary: i)
  case Nil
  then show ?case by simp
next
  case (Cons p ps)
  show ?case
  proof (cases i)
    case 0
    with Cons.prems show ?thesis by simp
  next
    case (Suc j)
    show ?thesis
    proof (cases j)
      case 0
      with Suc Cons.prems show ?thesis by (cases ps) auto
    next
      case (Suc k)
      with \<open>i = Suc j\<close> Cons.prems have "0 < j" "j < length ps" by auto
      from Cons.IH [OF this] \<open>i = Suc j\<close> Suc Cons.prems show ?thesis
        by (cases ps) (auto simp: join_Cons)
    qed
  qed
qed

lemma parents_prefix:
  assumes "p \<in> parents t"
  shows "\<exists>rest. t = p @ ustr ''.'' @ rest"
proof -
  let ?ps = "split_sep (cp CHR ''.'') t"
  from assms obtain i where i0: "i \<in> set [1 ..< length ?ps]"
      and p: "p = join (ustr ''.'') (take i ?ps)"
    unfolding parents_def by blast
  from i0 have i: "0 < i" "i < length ?ps" by simp_all
  have "t = join (ustr ''.'') ?ps"
    using join_split_sep [of "cp CHR ''.''" t] by (simp add: ustr_def)
  also have "\<dots> = p @ ustr ''.'' @ join (ustr ''.'') (drop i ?ps)"
    using join_take_drop [OF i] p by simp
  finally show ?thesis by blast
qed

lemma startswith_append: "startswith (p @ r) p"
  by (induction p) auto

lemma startswith_iff: "startswith s p \<longleftrightarrow> (\<exists>r. s = p @ r)"
proof (induction p arbitrary: s)
  case Nil
  show ?case by simp
next
  case (Cons a p)
  show ?case by (cases s) (auto simp: Cons)
qed

subsection \<open>The index of known target identifiers\<close>

lemma get_set_empty: "get_set Map.empty k = {}"
  by (simp add: get_set_def)

lemma get_set_set_add:
  "get_set (set_add d k v) k' = (if k' = k then insert v (get_set d k) else get_set d k')"
  by (simp add: get_set_def set_add_def)

lemma get_set_foldl_parents:
  "get_set (foldl (\<lambda>d i. set_add d sec (f i)) d is) k =
     (if k = sec then get_set d k \<union> f ` set is else get_set d k)"
  by (induction "is" arbitrary: d) (auto simp: get_set_set_add)

lemma get_set_add_parents:
  "get_set (add_parents d tid) k =
     (if k = ustr ''section'' then get_set d k \<union> parents tid else get_set d k)"
  unfolding add_parents_def parents_def Let_def
  by (simp add: get_set_foldl_parents)

lemma get_set_add_target:
  "get_set (add_target d t) k =
     (if k = target_type t then insert (target_id t) (get_set d k) else get_set d k) \<union>
     (if k = ustr ''section'' \<and> target_type t = ustr ''section'' then parents (target_id t) else {})"
  by (auto simp: add_target_def Let_def get_set_add_parents get_set_set_add)

lemma get_set_target_sets:
  "get_set (target_sets targets) k =
     ids_of targets k \<union>
     (if k = ustr ''section'' then \<Union> (parents ` ids_of targets k) else {})"
proof (induction targets arbitrary: k rule: rev_induct)
  case Nil
  show ?case by (simp add: target_sets_def get_set_empty ids_of_def)
next
  case (snoc t ts)
  have step: "target_sets (ts @ [t]) = add_target (target_sets ts) t"
    by (simp add: target_sets_def)
  show ?case
    unfolding step get_set_add_target snoc.IH ids_of_def
    by auto
qed

lemma get_set_target_sets_no_closure:
  "get_set (target_sets_no_closure targets) k = ids_of targets k"
proof (induction targets arbitrary: k rule: rev_induct)
  case Nil
  show ?case by (simp add: target_sets_no_closure_def get_set_empty ids_of_def)
next
  case (snoc t ts)
  have step: "target_sets_no_closure (ts @ [t]) =
      set_add (target_sets_no_closure ts) (target_type t) (target_id t)"
    by (simp add: target_sets_no_closure_def)
  show ?case
    unfolding step get_set_set_add snoc.IH ids_of_def
    by auto
qed

lemma group_matched_section:
  "group_matched d (ustr ''section'') rid = prefix_scan (get_set d (ustr ''section'')) rid"
  by (auto simp: group_matched_def Let_def prefix_scan_def)

lemma group_matched_other:
  "rtype \<noteq> ustr ''section'' \<Longrightarrow> group_matched d rtype rid = (rid \<in> get_set d rtype)"
  by (simp add: group_matched_def Let_def)

lemma prefix_scan_parents:
  "prefix_scan (K \<union> \<Union> (parents ` K)) rid = prefix_scan K rid"
proof
  assume "prefix_scan (K \<union> \<Union> (parents ` K)) rid"
  then obtain tid where tid: "tid \<in> K \<union> \<Union> (parents ` K)"
      and m: "startswith tid (rid @ ustr ''.'') \<or> tid = rid"
    by (auto simp: prefix_scan_def)
  show "prefix_scan K rid"
  proof (cases "tid \<in> K")
    case True
    with m show ?thesis by (auto simp: prefix_scan_def)
  next
    case False
    with tid obtain t where t: "t \<in> K" "tid \<in> parents t" by auto
    from parents_prefix [OF t(2)] obtain rest where r: "t = tid @ ustr ''.'' @ rest" by blast
    from m have "startswith t (rid @ ustr ''.'')"
    proof
      assume "startswith tid (rid @ ustr ''.'')"
      then obtain q where "tid = (rid @ ustr ''.'') @ q" by (auto simp: startswith_iff)
      with r have "t = (rid @ ustr ''.'') @ (q @ ustr ''.'' @ rest)" by simp
      then show ?thesis unfolding startswith_iff by blast
    next
      assume "tid = rid"
      with r have "t = (rid @ ustr ''.'') @ rest" by simp
      then show ?thesis unfolding startswith_iff by blast
    qed
    with t(1) show ?thesis by (auto simp: prefix_scan_def)
  qed
next
  assume "prefix_scan K rid"
  then show "prefix_scan (K \<union> \<Union> (parents ` K)) rid"
    by (auto simp: prefix_scan_def)
qed

lemma group_matched_closure_redundant:
  "group_matched (target_sets targets) rtype rid =
   group_matched (target_sets_no_closure targets) rtype rid"
proof (cases "rtype = ustr ''section''")
  case True
  show ?thesis
    unfolding True group_matched_section get_set_target_sets get_set_target_sets_no_closure
    by (simp add: prefix_scan_parents)
next
  case False
  then show ?thesis
    by (simp add: group_matched_other get_set_target_sets get_set_target_sets_no_closure)
qed



lemma split_once_key: "sep \<notin> set a \<Longrightarrow> split_once sep (a @ sep # b) = [a, b]"
  by (induction a) auto

lemma ref_key_has_colon: "cp CHR '':'' \<in> set (ref_key r)"
  by (simp add: ref_key_def ustr_def)

lemma split_once_two: "sep \<in> set s \<Longrightarrow> \<exists>a b. split_once sep s = [a, b]"
proof -
  assume "sep \<in> set s"
  then obtain a b where "s = a @ sep # b" "sep \<notin> set a"
    by (meson split_list_first)
  then show ?thesis by (auto simp: split_once_key)
qed

lemma classify_same:
  assumes "\<And>rtype rid. group_matched d rtype rid = group_matched d' rtype rid"
  shows "classify d seen acc = classify d' seen acc"
proof (induction seen arbitrary: acc)
  case Nil
  show ?case by (cases acc) simp
next
  case (Cons g seen)
  obtain key ref_list where g: "g = (key, ref_list)" by (cases g)
  obtain matched orphaned where acc: "acc = (matched, orphaned)" by (cases acc)
  show ?case
    unfolding g acc
    by (simp add: assms Cons.IH split: list.splits)
qed

lemma classify_result:
  assumes "\<forall>g \<in> set seen. cp CHR '':'' \<in> set (fst g)"
  shows "classify d seen (matched, orphaned) =
    Inr (matched @ concat (map snd (filter (\<lambda>g. key_matched d (fst g)) seen)),
         orphaned @ concat (map snd (filter (\<lambda>g. \<not> key_matched d (fst g)) seen)))"
  using assms
proof (induction seen arbitrary: matched orphaned)
  case Nil
  show ?case by simp
next
  case (Cons g seen)
  obtain key ref_list where g: "g = (key, ref_list)" by (cases g)
  from Cons.prems g have "cp CHR '':'' \<in> set key" by simp
  from split_once_two [OF this] obtain a b where sp: "split_once (cp CHR '':'') key = [a, b]"
    by blast
  from Cons.prems have rest: "\<forall>g \<in> set seen. cp CHR '':'' \<in> set (fst g)" by simp
  show ?case
    unfolding g using sp
    by (simp add: key_matched_def Cons.IH [OF rest])
qed

lemma seen_refs_snoc: "seen_refs (refs @ [r]) = seen_append (seen_refs refs) (ref_key r) r"
  by (simp add: seen_refs_def)

lemma seen_append_keys: "fst ` set (seen_append seen key r) = insert key (fst ` set seen)"
  by (induction seen key r rule: seen_append.induct) auto

lemma seen_refs_keys: "fst ` set (seen_refs refs) = ref_key ` set refs"
proof (induction refs rule: rev_induct)
  case Nil
  show ?case by (simp add: seen_refs_def)
next
  case (snoc r refs)
  show ?case by (simp add: seen_refs_snoc seen_append_keys snoc.IH)
qed

lemma seen_append_mset:
  "mset (concat (map snd (filter (\<lambda>g. P (fst g)) (seen_append seen key r)))) =
   mset (concat (map snd (filter (\<lambda>g. P (fst g)) seen))) + (if P key then {#r#} else {#})"
  by (induction seen key r rule: seen_append.induct) auto

lemma seen_refs_mset:
  "mset (concat (map snd (filter (\<lambda>g. P (fst g)) (seen_refs refs)))) =
   mset (filter (\<lambda>r. P (ref_key r)) refs)"
proof (induction refs rule: rev_induct)
  case Nil
  show ?case by (simp add: seen_refs_def)
next
  case (snoc r refs)
  show ?case by (simp add: seen_refs_snoc seen_append_mset snoc.IH)
qed

lemma find_orphans_result:
  "\<exists>matched orphaned.
     find_orphans refs targets = Inr (matched, orphaned) \<and>
     mset matched = mset (filter (\<lambda>r. key_matched (target_sets targets) (ref_key r)) refs) \<and>
     mset orphaned = mset (filter (\<lambda>r. \<not> key_matched (target_sets targets) (ref_key r)) refs)"
proof -
  have colon: "\<forall>g \<in> set (seen_refs refs). cp CHR '':'' \<in> set (fst g)"
  proof
    fix g assume "g \<in> set (seen_refs refs)"
    then have "fst g \<in> ref_key ` set refs" using seen_refs_keys [of refs] by blast
    then show "cp CHR '':'' \<in> set (fst g)" using ref_key_has_colon by auto
  qed
  show ?thesis
    unfolding find_orphans_def classify_result [OF colon]
    using seen_refs_mset [of "key_matched (target_sets targets)" refs]
      seen_refs_mset [of "\<lambda>k. \<not> key_matched (target_sets targets) k" refs]
    by simp
qed

lemma key_matched_ref:
  "cp CHR '':'' \<notin> set (ref_type r) \<Longrightarrow>
   key_matched d (ref_key r) = group_matched d (ref_type r) (ref_id r)"
  by (simp add: key_matched_def ref_key_def ustr_def split_once_key)

text \<open>
  Claim C6. For every list of references and of targets, \<open>find_orphans\<close> returns a
  pair of lists (it never raises), the matched and the orphaned list together hold every
  input Reference exactly once (as multisets), no Reference is in both lists, and two
  input References with the same \<open>ref_type\<close> and \<open>ref_id\<close> are in the same list.
\<close>

theorem find_orphans_partition:
  "\<exists>matched orphaned.
     find_orphans refs targets = Inr (matched, orphaned) \<and>
     mset matched + mset orphaned = mset refs \<and>
     set matched \<inter> set orphaned = {} \<and>
     (\<forall>r \<in> set refs. \<forall>r' \<in> set refs.
        ref_type r = ref_type r' \<and> ref_id r = ref_id r' \<longrightarrow>
        (r \<in> set matched \<longleftrightarrow> r' \<in> set matched) \<and>
        (r \<in> set orphaned \<longleftrightarrow> r' \<in> set orphaned))"
proof -
  let ?P = "\<lambda>r. key_matched (target_sets targets) (ref_key r)"
  from find_orphans_result [of refs targets] obtain matched orphaned where
    fo: "find_orphans refs targets = Inr (matched, orphaned)" and
    m: "mset matched = mset (filter ?P refs)" and
    o: "mset orphaned = mset (filter (\<lambda>r. \<not> ?P r) refs)"
    by blast
  from m have sm: "set matched = {r \<in> set refs. ?P r}"
    by (metis set_filter set_mset_mset)
  from o have so: "set orphaned = {r \<in> set refs. \<not> ?P r}"
    by (metis set_filter set_mset_mset)
  have part: "mset matched + mset orphaned = mset refs"
    unfolding m o by simp
  have disj: "set matched \<inter> set orphaned = {}"
    unfolding sm so by blast
  have same: "\<forall>r \<in> set refs. \<forall>r' \<in> set refs.
        ref_type r = ref_type r' \<and> ref_id r = ref_id r' \<longrightarrow>
        (r \<in> set matched \<longleftrightarrow> r' \<in> set matched) \<and>
        (r \<in> set orphaned \<longleftrightarrow> r' \<in> set orphaned)"
    unfolding sm so by (auto simp: ref_key_def)
  from fo part disj same show ?thesis by blast
qed

text \<open>
  Claim C10. The loop of \<open>find_orphans\<close> that registers every proper dot-prefix of a
  section target is redundant: without it (\<open>find_orphans_no_closure\<close>) the function
  returns the same pair of lists, for every list of references and of targets.
\<close>

theorem closure_redundant:
  "find_orphans refs targets = find_orphans_no_closure refs targets"
  unfolding find_orphans_def find_orphans_no_closure_def
  by (rule classify_same) (rule group_matched_closure_redundant)



lemma parents_524: "parents (ustr ''5.2.4'') = {ustr ''5'', ustr ''5.2''}"
  by (simp add: parents_def ustr_def cp_def upt_rec) 

lemma parents_S1: "parents (ustr ''S.1'') = {ustr ''S''}"
  by (simp add: parents_def ustr_def cp_def upt_rec)

lemma parents_S12: "parents (ustr ''S.1.2'') = {ustr ''S'', ustr ''S.1''}"
  by (simp add: parents_def ustr_def cp_def upt_rec)

lemma section_no_colon: "cp CHR '':'' \<notin> set (ustr ''section'')"
  by (simp add: ustr_def cp_def)

lemma section_key_matched:
  "ref_type r = ustr ''section'' \<Longrightarrow>
   key_matched (target_sets targets) (ref_key r) =
   prefix_scan (ids_of targets (ustr ''section'') \<union>
                \<Union> (parents ` ids_of targets (ustr ''section''))) (ref_id r)"
  using key_matched_ref [of r "target_sets targets"] section_no_colon
  by (simp add: group_matched_section get_set_target_sets)

text \<open>
  Claim C1. When the section targets of the pool all carry the identifier "5.2.4" (targets
  of other kinds are arbitrary), \<open>find_orphans\<close> puts every section reference "5" and
  every section reference "5.2" in the matched list and not in the orphaned list, and every
  section reference "5.3" in the orphaned list and not in the matched list.
\<close>

theorem section_prefix_closure:
  assumes "set (map target_id (filter (\<lambda>t. target_type t = ustr ''section'') targets)) = {ustr ''5.2.4''}"
  shows "\<exists>matched orphaned.
     find_orphans refs targets = Inr (matched, orphaned) \<and>
     (\<forall>r \<in> set refs. ref_type r = ustr ''section'' \<longrightarrow>
        (ref_id r = ustr ''5'' \<or> ref_id r = ustr ''5.2'' \<longrightarrow> r \<in> set matched \<and> r \<notin> set orphaned) \<and>
        (ref_id r = ustr ''5.3'' \<longrightarrow> r \<in> set orphaned \<and> r \<notin> set matched))"
proof -
  let ?P = "\<lambda>r. key_matched (target_sets targets) (ref_key r)"
  from find_orphans_result [of refs targets] obtain matched orphaned where
    fo: "find_orphans refs targets = Inr (matched, orphaned)" and
    m: "mset matched = mset (filter ?P refs)" and
    o: "mset orphaned = mset (filter (\<lambda>r. \<not> ?P r) refs)"
    by blast
  from m have sm: "set matched = {r \<in> set refs. ?P r}"
    by (metis set_filter set_mset_mset)
  from o have so: "set orphaned = {r \<in> set refs. \<not> ?P r}"
    by (metis set_filter set_mset_mset)
  from assms have ids: "ids_of targets (ustr ''section'') = {ustr ''5.2.4''}"
    by (simp add: ids_of_def)
  have known: "\<And>r. ref_type r = ustr ''section'' \<Longrightarrow>
      ?P r = prefix_scan {ustr ''5'', ustr ''5.2'', ustr ''5.2.4''} (ref_id r)"
    by (simp add: section_key_matched ids parents_524)
  have yes5: "prefix_scan {ustr ''5'', ustr ''5.2'', ustr ''5.2.4''} (ustr ''5'')"
    by (simp add: prefix_scan_def)
  have yes52: "prefix_scan {ustr ''5'', ustr ''5.2'', ustr ''5.2.4''} (ustr ''5.2'')"
    by (simp add: prefix_scan_def)
  have no53: "\<not> prefix_scan {ustr ''5'', ustr ''5.2'', ustr ''5.2.4''} (ustr ''5.3'')"
    by (simp add: prefix_scan_def ustr_def cp_def)
  have "\<forall>r \<in> set refs. ref_type r = ustr ''section'' \<longrightarrow>
        (ref_id r = ustr ''5'' \<or> ref_id r = ustr ''5.2'' \<longrightarrow> r \<in> set matched \<and> r \<notin> set orphaned) \<and>
        (ref_id r = ustr ''5.3'' \<longrightarrow> r \<in> set orphaned \<and> r \<notin> set matched)"
    unfolding sm so using known yes5 yes52 no53 by auto
  with fo show ?thesis by blast
qed

text \<open>
  Claim C5. When the section targets of the pool carry exactly the identifiers "S.1" and
  "S.1.2" and every reference is a section reference to "S.1.2" or to "S.2",
  \<open>find_orphans\<close> returns as matched exactly the references to "S.1.2" and as orphaned
  exactly the references to "S.2" (with their multiplicities).
\<close>

theorem orphan_completeness:
  assumes "set (map target_id (filter (\<lambda>t. target_type t = ustr ''section'') targets)) =
             {ustr ''S.1'', ustr ''S.1.2''}"
    and "\<forall>r \<in> set refs. ref_type r = ustr ''section'' \<and>
           (ref_id r = ustr ''S.1.2'' \<or> ref_id r = ustr ''S.2'')"
  shows "\<exists>matched orphaned.
     find_orphans refs targets = Inr (matched, orphaned) \<and>
     mset matched = mset (filter (\<lambda>r. ref_id r = ustr ''S.1.2'') refs) \<and>
     mset orphaned = mset (filter (\<lambda>r. ref_id r = ustr ''S.2'') refs)"
proof -
  let ?P = "\<lambda>r. key_matched (target_sets targets) (ref_key r)"
  let ?K = "{ustr ''S.1'', ustr ''S.1.2'', ustr ''S''}"
  from find_orphans_result [of refs targets] obtain matched orphaned where
    fo: "find_orphans refs targets = Inr (matched, orphaned)" and
    m: "mset matched = mset (filter ?P refs)" and
    o: "mset orphaned = mset (filter (\<lambda>r. \<not> ?P r) refs)"
    by blast
  from assms(1) have ids: "ids_of targets (ustr ''section'') = {ustr ''S.1'', ustr ''S.1.2''}"
    by (simp add: ids_of_def)
  have K: "ids_of targets (ustr ''section'') \<union> \<Union> (parents ` ids_of targets (ustr ''section'')) = ?K"
    unfolding ids by (auto simp: parents_S1 parents_S12)
  have known: "\<And>r. ref_type r = ustr ''section'' \<Longrightarrow> ?P r = prefix_scan ?K (ref_id r)"
    by (simp only: section_key_matched K)
  have yes: "prefix_scan ?K (ustr ''S.1.2'')"
    by (simp add: prefix_scan_def)
  have no: "\<not> prefix_scan ?K (ustr ''S.2'')"
    by (simp add: prefix_scan_def ustr_def cp_def)
  have ne: "ustr ''S.1.2'' \<noteq> ustr ''S.2''"
    by (simp add: ustr_def cp_def)
  have P: "\<forall>r \<in> set refs. ?P r = (ref_id r = ustr ''S.1.2'')"
    using assms(2) known yes no ne by auto
  have nP: "\<forall>r \<in> set refs. (\<not> ?P r) = (ref_id r = ustr ''S.2'')"
    using assms(2) known yes no ne by auto
  have "filter ?P refs = filter (\<lambda>r. ref_id r = ustr ''S.1.2'') refs"
    using P by (auto intro: filter_cong)
  moreover have "filter (\<lambda>r. \<not> ?P r) refs = filter (\<lambda>r. ref_id r = ustr ''S.2'') refs"
    using nP by (auto intro: filter_cong)
  ultimately show ?thesis using fo m o by auto
qed


text \<open>
  The hypothesis of C1 holds for a pool with one section target "5.2.4" and a table target,
  and the three section references are classified as the claim says.
\<close>

theorem section_prefix_closure_witness:
  "set (map target_id (filter (\<lambda>t. target_type t = ustr ''section'')
      [\<lparr>target_type = ustr ''section'', target_id = ustr ''5.2.4'', raw_text = ustr ''5.2.4 Water'',
         volume = ustr ''v1.pdf'', page = 7\<rparr>,
       \<lparr>target_type = ustr ''table'', target_id = ustr ''5.3'', raw_text = ustr ''Table 5.3'',
         volume = ustr ''v1.pdf'', page = 8\<rparr>])) = {ustr ''5.2.4''} \<and>
   find_orphans
     [\<lparr>ref_type = ustr ''section'', ref_id = ustr ''5'', raw_text = ustr ''Section 5'',
        volume = ustr ''v1.pdf'', page = 3, context_snippet = ustr ''see Section 5 for''\<rparr>,
      \<lparr>ref_type = ustr ''section'', ref_id = ustr ''5.3'', raw_text = ustr ''Section 5.3'',
        volume = ustr ''v1.pdf'', page = 4, context_snippet = ustr ''in Section 5.3.''\<rparr>,
      \<lparr>ref_type = ustr ''section'', ref_id = ustr ''5.2'', raw_text = ustr ''Section 5.2'',
        volume = ustr ''v2.pdf'', page = 9, context_snippet = ustr ''(Section 5.2)''\<rparr>]
     [\<lparr>target_type = ustr ''section'', target_id = ustr ''5.2.4'', raw_text = ustr ''5.2.4 Water'',
        volume = ustr ''v1.pdf'', page = 7\<rparr>,
      \<lparr>target_type = ustr ''table'', target_id = ustr ''5.3'', raw_text = ustr ''Table 5.3'',
        volume = ustr ''v1.pdf'', page = 8\<rparr>] =
   Inr ([\<lparr>ref_type = ustr ''section'', ref_id = ustr ''5'', raw_text = ustr ''Section 5'',
          volume = ustr ''v1.pdf'', page = 3, context_snippet = ustr ''see Section 5 for''\<rparr>,
         \<lparr>ref_type = ustr ''section'', ref_id = ustr ''5.2'', raw_text = ustr ''Section 5.2'',
          volume = ustr ''v2.pdf'', page = 9, context_snippet = ustr ''(Section 5.2)''\<rparr>],
        [\<lparr>ref_type = ustr ''section'', ref_id = ustr ''5.3'', raw_text = ustr ''Section 5.3'',
          volume = ustr ''v1.pdf'', page = 4, context_snippet = ustr ''in Section 5.3.''\<rparr>])"
  (is "?H \<and> ?C")
proof -
  have h: ?H by (simp add: ustr_def cp_def)
  have ev: ?C by code_simp
  show ?thesis
    using h ev section_prefix_closure [OF h, of
      "[\<lparr>ref_type = ustr ''section'', ref_id = ustr ''5'', raw_text = ustr ''Section 5'',
        volume = ustr ''v1.pdf'', page = 3, context_snippet = ustr ''see Section 5 for''\<rparr>,
      \<lparr>ref_type = ustr ''section'', ref_id = ustr ''5.3'', raw_text = ustr ''Section 5.3'',
        volume = ustr ''v1.pdf'', page = 4, context_snippet = ustr ''in Section 5.3.''\<rparr>,
      \<lparr>ref_type = ustr ''section'', ref_id = ustr ''5.2'', raw_text = ustr ''Section 5.2'',
        volume = ustr ''v2.pdf'', page = 9, context_snippet = ustr ''(Section 5.2)''\<rparr>]"]
    by simp
qed


text \<open>
  The hypotheses of C5 hold for the pool of the claim, and the two lists are as it says.
\<close>

theorem orphan_completeness_witness:
  "set (map target_id (filter (\<lambda>t. target_type t = ustr ''section'')
      [\<lparr>target_type = ustr ''section'', target_id = ustr ''S.1'', raw_text = ustr ''S.1 Intro'',
         volume = ustr ''v1.pdf'', page = 1\<rparr>,
       \<lparr>target_type = ustr ''section'', target_id = ustr ''S.1.2'', raw_text = ustr ''S.1.2 Scope'',
         volume = ustr ''v1.pdf'', page = 2\<rparr>])) = {ustr ''S.1'', ustr ''S.1.2''} \<and>
   find_orphans
     [\<lparr>ref_type = ustr ''section'', ref_id = ustr ''S.1.2'', raw_text = ustr ''Section S.1.2'',
        volume = ustr ''v1.pdf'', page = 3, context_snippet = ustr ''see Section S.1.2''\<rparr>,
      \<lparr>ref_type = ustr ''section'', ref_id = ustr ''S.2'', raw_text = ustr ''Section S.2'',
        volume = ustr ''v1.pdf'', page = 4, context_snippet = ustr ''in Section S.2.''\<rparr>]
     [\<lparr>target_type = ustr ''section'', target_id = ustr ''S.1'', raw_text = ustr ''S.1 Intro'',
        volume = ustr ''v1.pdf'', page = 1\<rparr>,
      \<lparr>target_type = ustr ''section'', target_id = ustr ''S.1.2'', raw_text = ustr ''S.1.2 Scope'',
        volume = ustr ''v1.pdf'', page = 2\<rparr>] =
   Inr ([\<lparr>ref_type = ustr ''section'', ref_id = ustr ''S.1.2'', raw_text = ustr ''Section S.1.2'',
          volume = ustr ''v1.pdf'', page = 3, context_snippet = ustr ''see Section S.1.2''\<rparr>],
        [\<lparr>ref_type = ustr ''section'', ref_id = ustr ''S.2'', raw_text = ustr ''Section S.2'',
          volume = ustr ''v1.pdf'', page = 4, context_snippet = ustr ''in Section S.2.''\<rparr>])"
  (is "?H \<and> ?C")
proof -
  have h: ?H by (simp add: ustr_def cp_def)
  have r: "\<forall>r \<in> set
     [\<lparr>ref_type = ustr ''section'', ref_id = ustr ''S.1.2'', raw_text = ustr ''Section S.1.2'',
        volume = ustr ''v1.pdf'', page = 3, context_snippet = ustr ''see Section S.1.2''\<rparr>,
      \<lparr>ref_type = ustr ''section'', ref_id = ustr ''S.2'', raw_text = ustr ''Section S.2'',
        volume = ustr ''v1.pdf'', page = 4, context_snippet = ustr ''in Section S.2.''\<rparr>].
     ref_type r = ustr ''section'' \<and> (ref_id r = ustr ''S.1.2'' \<or> ref_id r = ustr ''S.2'')"
    by simp
  have ev: ?C by code_simp
  show ?thesis
    using h ev orphan_completeness [OF h r]
    by simp
qed

text \<open>
  C6 at a pool with a repeated reference, a reference of another kind and one orphan.
\<close>

theorem find_orphans_partition_witness:
  "find_orphans
     [\<lparr>ref_type = ustr ''table'', ref_id = ustr ''4.3-1'', raw_text = ustr ''Table 4.3-1'',
        volume = ustr ''v1.pdf'', page = 3, context_snippet = ustr ''see Table 4.3-1''\<rparr>,
      \<lparr>ref_type = ustr ''section'', ref_id = ustr ''5.3'', raw_text = ustr ''Section 5.3'',
        volume = ustr ''v1.pdf'', page = 4, context_snippet = ustr ''in Section 5.3.''\<rparr>,
      \<lparr>ref_type = ustr ''table'', ref_id = ustr ''4.3-1'', raw_text = ustr ''Tables 4.3-1'',
        volume = ustr ''v2.pdf'', page = 9, context_snippet = ustr ''(Tables 4.3-1)''\<rparr>]
     [\<lparr>target_type = ustr ''table'', target_id = ustr ''4.3-1'', raw_text = ustr ''Table 4.3-1'',
        volume = ustr ''v1.pdf'', page = 8\<rparr>] =
   Inr ([\<lparr>ref_type = ustr ''table'', ref_id = ustr ''4.3-1'', raw_text = ustr ''Table 4.3-1'',
          volume = ustr ''v1.pdf'', page = 3, context_snippet = ustr ''see Table 4.3-1''\<rparr>,
         \<lparr>ref_type = ustr ''table'', ref_id = ustr ''4.3-1'', raw_text = ustr ''Tables 4.3-1'',
          volume = ustr ''v2.pdf'', page = 9, context_snippet = ustr ''(Tables 4.3-1)''\<rparr>],
        [\<lparr>ref_type = ustr ''section'', ref_id = ustr ''5.3'', raw_text = ustr ''Section 5.3'',
          volume = ustr ''v1.pdf'', page = 4, context_snippet = ustr ''in Section 5.3.''\<rparr>])"
  (is ?C)
proof -
  have ev: ?C by code_simp
  show ?thesis
    using ev find_orphans_partition [of
     "[\<lparr>ref_type = ustr ''table'', ref_id = ustr ''4.3-1'', raw_text = ustr ''Table 4.3-1'',
        volume = ustr ''v1.pdf'', page = 3, context_snippet = ustr ''see Table 4.3-1''\<rparr>,
      \<lparr>ref_type = ustr ''section'', ref_id = ustr ''5.3'', raw_text = ustr ''Section 5.3'',
        volume = ustr ''v1.pdf'', page = 4, context_snippet = ustr ''in Section 5.3.''\<rparr>,
      \<lparr>ref_type = ustr ''table'', ref_id = ustr ''4.3-1'', raw_text = ustr ''Tables 4.3-1'',
        volume = ustr ''v2.pdf'', page = 9, context_snippet = ustr ''(Tables 4.3-1)''\<rparr>]"
     "[\<lparr>target_type = ustr ''table'', target_id = ustr ''4.3-1'', raw_text = ustr ''Table 4.3-1'',
        volume = ustr ''v1.pdf'', page = 8\<rparr>]"]
    by simp
qed

text \<open>
  C10 at a pool where only the prefix closure registers "5" and "5.2": both versions
  match the references to them.
\<close>

theorem closure_redundant_witness:
  "find_orphans_no_closure
     [\<lparr>ref_type = ustr ''section'', ref_id = ustr ''5'', raw_text = ustr ''Section 5'',
        volume = ustr ''v1.pdf'', page = 3, context_snippet = ustr ''see Section 5 for''\<rparr>,
      \<lparr>ref_type = ustr ''section'', ref_id = ustr ''5.3'', raw_text = ustr ''Section 5.3'',
        volume = ustr ''v1.pdf'', page = 4, context_snippet = ustr ''in Section 5.3.''\<rparr>]
     [\<lparr>target_type = ustr ''section'', target_id = ustr ''5.2.4'', raw_text = ustr ''5.2.4 Water'',
        volume = ustr ''v1.pdf'', page = 7\<rparr>] =
   Inr ([\<lparr>ref_type = ustr ''section'', ref_id = ustr ''5'', raw_text = ustr ''Section 5'',
          volume = ustr ''v1.pdf'', page = 3, context_snippet = ustr ''see Section 5 for''\<rparr>],
        [\<lparr>ref_type = ustr ''section'', ref_id = ustr ''5.3'', raw_text = ustr ''Section 5.3'',
          volume = ustr ''v1.pdf'', page = 4, context_snippet = ustr ''in Section 5.3.''\<rparr>])"
proof -
  have "find_orphans
     [\<lparr>ref_type = ustr ''section'', ref_id = ustr ''5'', raw_text = ustr ''Section 5'',
        volume = ustr ''v1.pdf'', page = 3, context_snippet = ustr ''see Section 5 for''\<rparr>,
      \<lparr>ref_type = ustr ''section'', ref_id = ustr ''5.3'', raw_text = ustr ''Section 5.3'',
        volume = ustr ''v1.pdf'', page = 4, context_snippet = ustr ''in Section 5.3.''\<rparr>]
     [\<lparr>target_type = ustr ''section'', target_id = ustr ''5.2.4'', raw_text = ustr ''5.2.4 Water'',
        volume = ustr ''v1.pdf'', page = 7\<rparr>] =
   Inr ([\<lparr>ref_type = ustr ''section'', ref_id = ustr ''5'', raw_text = ustr ''Section 5'',
          volume = ustr ''v1.pdf'', page = 3, context_snippet = ustr ''see Section 5 for''\<rparr>],
        [\<lparr>ref_type = ustr ''section'', ref_id = ustr ''5.3'', raw_text = ustr ''Section 5.3'',
          volume = ustr ''v1.pdf'', page = 4, context_snippet = ustr ''in Section 5.3.''\<rparr>])"
    by code_simp
  then show ?thesis
    unfolding closure_redundant .
qed

end
